theory Spec2Isabelle
  imports Main "HOL-Library.Word"
begin

unbundle bit_operations_syntax

section \<open>The interpreter object, as the host in main.py uses it\<close>

text \<open>
  main.py is the host of a CHIP-8 interpreter: a Tk window with a menu and two buttons, a
  Pygame surface of 640 x 320 pixels, and a thread that drives the interpreter. The
  interpreter itself is the class \<open>Chip8\<close> of the module \<open>chip8\<close>, which main.py imports.
  The host reads and writes these attributes of a \<open>Chip8\<close> object: \<open>pc\<close>, \<open>stack\<close>, \<open>V\<close>,
  \<open>I\<close>, \<open>delay_timer\<close>, \<open>sound_timer\<close>, \<open>display\<close>, \<open>draw_flag\<close>, \<open>DISPLAY_WIDTH\<close> and
  \<open>DISPLAY_HEIGHT\<close>. The memory, the key table and the wait mode are the remaining parts of
  the interpreter's state.
\<close>

type_synonym byte = "8 word"

datatype exn =
  RomTooLarge | IllegalOpcode | StackOverflow | StackUnderflow | FetchOutOfRange
| InvalidKey | OSError | IndexError

datatype mode = Running | AwaitingKey nat "bool list"

record chip8 =
  memory :: "byte list"
  V :: "byte list"
  I :: "16 word"
  pc :: "16 word"
  stack :: "16 word list"
  delay_timer :: byte
  sound_timer :: byte
  display :: "int list"
  draw_flag :: bool
  keys :: "bool list"
  mode :: mode
  DISPLAY_WIDTH :: nat
  DISPLAY_HEIGHT :: nat

text \<open>
  The methods of \<open>Chip8\<close> that main.py calls. Their code is in the module \<open>chip8\<close>, so the
  host is modelled for any behaviour of theirs: the constructor \<open>Chip8()\<close> gives an object,
  and each of \<open>load_rom(filename)\<close>, \<open>handle_input()\<close> and \<open>emulate_cycle()\<close> either returns
  and leaves an object (\<open>Inr\<close>), or raises and leaves an object (\<open>Inl\<close>). The number given
  to \<open>handle_input\<close> and \<open>emulate_cycle\<close> counts the calls within one pass of the
  emulation loop, so that two calls may differ (random numbers, the keyboard).
\<close>

record core =
  Chip8_init :: chip8
  Chip8_load_rom :: "string \<Rightarrow> chip8 \<Rightarrow> exn \<times> chip8 + chip8"
  Chip8_handle_input :: "nat \<Rightarrow> chip8 \<Rightarrow> exn \<times> chip8 + chip8"
  Chip8_emulate_cycle :: "nat \<Rightarrow> chip8 \<Rightarrow> exn \<times> chip8 + chip8"

section \<open>The host: class EmulatorGUI\<close>

type_synonym colour = "nat \<times> nat \<times> nat"
type_synonym surface = "nat \<times> nat \<Rightarrow> colour"

definition black :: colour where
  "black = (0, 0, 0)"

definition white :: colour where
  "white = (255, 255, 255)"

text \<open>
  A message box: \<open>ShowError title prefix e\<close> is \<open>messagebox.showerror\<close> with the title and
  the text \<open>prefix\<close> followed by \<open>str(e)\<close>, the message of the exception \<open>e\<close>, which the
  code that raised it decides; \<open>ShowInfo title\<close> is \<open>messagebox.showinfo\<close>.
\<close>

datatype dialog = ShowError string string exn | ShowInfo string

text \<open>
  The fields of \<open>EmulatorGUI\<close>. \<open>screen\<close> is the Pygame surface that \<open>draw_display\<close>
  paints, \<open>window\<close> what the Pygame window shows (the surface as of the last
  \<open>pygame.display.flip()\<close>), \<open>status_label\<close> the label's text and colour, \<open>dialogs\<close> the
  message boxes shown so far, \<open>alive\<close> whether Pygame and the Tk root are still up.
\<close>

record gui =
  chip8 :: chip8
  running :: bool
  paused :: bool
  rom_loaded :: bool
  status_label :: "string \<times> string"
  screen :: surface
  window :: surface
  dialogs :: "dialog list"
  alive :: bool

definition EmulatorGUI :: "core \<Rightarrow> gui" where
  "EmulatorGUI K =
     \<lparr>chip8 = Chip8_init K, running = True, paused = False, rom_loaded = False,
      status_label = (''No ROM loaded'', ''red''),
      screen = (\<lambda>p. black), window = (\<lambda>p. black), dialogs = [], alive = True\<rparr>"

definition basename :: "string \<Rightarrow> string" where
  "basename f = rev (takeWhile (\<lambda>ch. ch \<noteq> CHR ''/'') (rev f))"

text \<open>
  \<open>load_rom\<close>: \<open>filename\<close> is what the file dialog returned, the empty string when it
  was cancelled. The new object replaces \<open>self.chip8\<close> before its \<open>load_rom\<close> is called,
  inside the \<open>try\<close>; the handler shows an error box and does nothing else.
\<close>

definition load_rom :: "core \<Rightarrow> string \<Rightarrow> gui \<Rightarrow> gui" where
  "load_rom K filename g =
     (if filename = [] then g
      else (case Chip8_load_rom K filename (Chip8_init K) of
          Inr c \<Rightarrow>
            g\<lparr>chip8 := c, rom_loaded := True, paused := False,
              status_label := (''Running: '' @ basename filename, ''green'')\<rparr>
        | Inl (e, c) \<Rightarrow>
            g\<lparr>chip8 := c,
              dialogs := dialogs g @ [ShowError ''Error'' ''Failed to load ROM: '' e]\<rparr>))"

text \<open>
  \<open>draw_display\<close>: for \<open>y\<close> in \<open>range(32)\<close>, for \<open>x\<close> in \<open>range(64)\<close>, the block of pixels
  \<open>[10x, 10x + 10) x [10y, 10y + 10)\<close> gets the colour of \<open>display[y * 64 + x]\<close>. Reading a
  list past its end raises IndexError; the surface then keeps what was painted so far.
\<close>

definition blit :: "surface \<Rightarrow> nat \<Rightarrow> nat \<Rightarrow> colour \<Rightarrow> surface" where
  "blit s x y col =
     (\<lambda>(px, py). if x * 10 \<le> px \<and> px < (x + 1) * 10 \<and> y * 10 \<le> py \<and> py < (y + 1) * 10
        then col else s (px, py))"

fun draw_row :: "int list \<Rightarrow> nat \<Rightarrow> nat list \<Rightarrow> surface \<Rightarrow> exn \<times> surface + surface" where
  "draw_row d y [] s = Inr s"
| "draw_row d y (x # xs) s =
     (if y * 64 + x < length d
      then draw_row d y xs (blit s x y (if d ! (y * 64 + x) = 1 then white else black))
      else Inl (IndexError, s))"

fun draw_rows :: "int list \<Rightarrow> nat list \<Rightarrow> surface \<Rightarrow> exn \<times> surface + surface" where
  "draw_rows d [] s = Inr s"
| "draw_rows d (y # ys) s =
     (case draw_row d y [0..<64] s of
        Inl es \<Rightarrow> Inl es
      | Inr s' \<Rightarrow> draw_rows d ys s')"

definition draw_display :: "gui \<Rightarrow> exn \<times> gui + gui" where
  "draw_display g =
     (case draw_rows (display (chip8 g)) [0..<32] (screen g) of
        Inl (e, s) \<Rightarrow> Inl (e, g\<lparr>screen := s\<rparr>)
      | Inr s \<Rightarrow> Inr (g\<lparr>screen := s\<rparr>))"

definition quit_emulator :: "gui \<Rightarrow> gui" where
  "quit_emulator g = g\<lparr>running := False, alive := False\<rparr>"

definition toggle_pause :: "gui \<Rightarrow> gui" where
  "toggle_pause g =
     g\<lparr>paused := \<not> paused g,
       status_label := (if \<not> paused g then ''Paused'' else ''Running'', snd (status_label g))\<rparr>"

definition reset :: "gui \<Rightarrow> gui" where
  "reset g =
     (if rom_loaded g
      then g\<lparr>chip8 := (chip8 g)
             \<lparr>pc := 0x200, stack := [], V := replicate 16 0, I := 0,
              delay_timer := 0, sound_timer := 0,
              display := replicate (DISPLAY_WIDTH (chip8 g) * DISPLAY_HEIGHT (chip8 g)) 0,
              draw_flag := True\<rparr>\<rparr>
      else g)"

definition show_controls :: "gui \<Rightarrow> gui" where
  "show_controls g = g\<lparr>dialogs := dialogs g @ [ShowInfo ''Controls'']\<rparr>"

definition show_about :: "gui \<Rightarrow> gui" where
  "show_about g = g\<lparr>dialogs := dialogs g @ [ShowInfo ''About'']\<rparr>"

subsection \<open>The emulation loop\<close>

text \<open>
  One pass of \<open>while self.running:\<close>. \<open>evs\<close> is what \<open>pygame.event.get()\<close> returns in
  this pass. A pass ends in one of three ways: the loop goes on (\<open>Continue\<close>), the method
  returns or the loop condition is false (\<open>Exited\<close>), or an exception leaves the method
  (\<open>Raised\<close>): \<open>emulation_loop\<close> has no handler, so the thread that runs it ends there.
  \<open>self.clock.tick(60)\<close> is \<open>pygame.time.Clock.tick\<close>: it waits, and touches no field.
\<close>

datatype event = QUIT | OTHER

datatype outcome = Continue | Exited | Raised exn

fun handle_events :: "core \<Rightarrow> nat \<Rightarrow> event list \<Rightarrow> gui \<Rightarrow> exn \<times> gui + bool \<times> gui" where
  "handle_events K i [] g = Inr (False, g)"
| "handle_events K i (ev # evs) g =
     (if ev = QUIT then Inr (True, quit_emulator g)
      else (case Chip8_handle_input K i (chip8 g) of
          Inl (e, c) \<Rightarrow> Inl (e, g\<lparr>chip8 := c\<rparr>)
        | Inr c \<Rightarrow> handle_events K (Suc i) evs (g\<lparr>chip8 := c\<rparr>)))"

fun run_cycles :: "core \<Rightarrow> nat \<Rightarrow> nat \<Rightarrow> chip8 \<Rightarrow> exn \<times> chip8 + chip8" where
  "run_cycles K j 0 c = Inr c"
| "run_cycles K j (Suc n) c =
     (case Chip8_emulate_cycle K j c of
        Inl ec \<Rightarrow> Inl ec
      | Inr c' \<Rightarrow> run_cycles K (Suc j) n c')"

definition update_display :: "gui \<Rightarrow> exn \<times> gui + gui" where
  "update_display g =
     (if draw_flag (chip8 g)
      then (case draw_display (g\<lparr>screen := (\<lambda>p. black)\<rparr>) of
          Inl eg \<Rightarrow> Inl eg
        | Inr g' \<Rightarrow> Inr (g'\<lparr>window := screen g', chip8 := (chip8 g')\<lparr>draw_flag := False\<rparr>\<rparr>))
      else Inr g)"

definition emulation_loop_pass :: "core \<Rightarrow> event list \<Rightarrow> gui \<Rightarrow> outcome \<times> gui" where
  "emulation_loop_pass K evs g =
     (if \<not> running g then (Exited, g)
      else if rom_loaded g \<and> \<not> paused g then
        (case handle_events K 0 evs g of
           Inl (e, g') \<Rightarrow> (Raised e, g')
         | Inr (True, g') \<Rightarrow> (Exited, g')
         | Inr (False, g1) \<Rightarrow>
             (case run_cycles K 0 10 (chip8 g1) of
                Inl (e, c) \<Rightarrow> (Raised e, g1\<lparr>chip8 := c\<rparr>)
              | Inr c \<Rightarrow>
                  (case update_display (g1\<lparr>chip8 := c\<rparr>) of
                     Inl (e, g') \<Rightarrow> (Raised e, g')
                   | Inr g' \<Rightarrow> (Continue, g'))))
      else if QUIT \<in> set evs then (Exited, quit_emulator g)
      else (Continue, g))"

text \<open>
  The loop itself, over the event batches of its passes; it stops at the first pass that
  does not end in \<open>Continue\<close>.
\<close>

fun emulation_loop :: "core \<Rightarrow> event list list \<Rightarrow> gui \<Rightarrow> outcome \<times> gui" where
  "emulation_loop K [] g = (Continue, g)"
| "emulation_loop K (evs # rest) g =
     (case emulation_loop_pass K evs g of
        (Continue, g') \<Rightarrow> emulation_loop K rest g'
      | r \<Rightarrow> r)"

subsection \<open>The menu and the buttons\<close>

text \<open>
  What \<open>create_menu\<close> and \<open>create_controls\<close> bind: File > Load ROM..., File > Exit and
  the window's close button, Help > Controls, Help > About, the buttons Pause/Resume and
  Reset. \<open>LoadRom\<close> carries the file name the dialog returns.
\<close>

datatype command = LoadRom string | Exit | Controls | About | PauseResume | Reset

fun invoke :: "core \<Rightarrow> command \<Rightarrow> gui \<Rightarrow> gui" where
  "invoke K (LoadRom filename) g = load_rom K filename g"
| "invoke K Exit g = quit_emulator g"
| "invoke K Controls g = show_controls g"
| "invoke K About g = show_about g"
| "invoke K PauseResume g = toggle_pause g"
| "invoke K Reset g = reset g"

section \<open>The interpreter of the specification\<close>

text \<open>
  Modelled from the spec: the class \<open>Chip8\<close> (module \<open>chip8\<close>, imported by main.py and not
  among the sources). What follows is the interpreter as sections 3 to 6 of the
  specification describe it: the initial state, the loader, one instruction cycle with the
  instruction table of section 4.3, the timer tick and the input latch. The bytes of the
  built-in font are not given there and are a parameter, \<open>font\<close>.
\<close>

text \<open>Modelled from the spec: the constructor \<open>Chip8()\<close>; the initial values of section 3.\<close>

definition Chip8_new :: "byte list \<Rightarrow> chip8" where
  "Chip8_new font =
     \<lparr>memory = take 80 (font @ replicate 80 0) @ replicate 4016 0,
      V = replicate 16 0, I = 0, pc = 0x200, stack = [],
      delay_timer = 0, sound_timer = 0,
      display = replicate 2048 0, draw_flag = True,
      keys = replicate 16 False, mode = Running,
      DISPLAY_WIDTH = 64, DISPLAY_HEIGHT = 32\<rparr>"

text \<open>
  Modelled from the spec: the ROM Loader of section 4.2, \<open>load(bytes)\<close>. It fails with
  \<open>RomTooLarge\<close> when the length exceeds 4096 - 512 and then changes nothing; otherwise
  every field gets its initial value and the bytes are copied to 0x200 and up. The
  reserved area below 0x200 is never written.
\<close>

definition load :: "byte list \<Rightarrow> chip8 \<Rightarrow> exn \<times> chip8 + chip8" where
  "load rom c =
     (if length rom > 4096 - 512 then Inl (RomTooLarge, c)
      else Inr (c\<lparr>memory := take 512 (memory c) @ rom @ replicate (3584 - length rom) 0,
                  V := replicate 16 0, I := 0, pc := 0x200, stack := [],
                  delay_timer := 0, sound_timer := 0,
                  display := replicate 2048 0, draw_flag := True,
                  keys := replicate 16 False, mode := Running\<rparr>))"

text \<open>Modelled from the spec: section 4.1, addresses taken modulo 4096.\<close>

definition read8 :: "chip8 \<Rightarrow> nat \<Rightarrow> byte" where
  "read8 c a = memory c ! (a mod 4096)"

definition write8 :: "nat \<Rightarrow> byte \<Rightarrow> chip8 \<Rightarrow> chip8" where
  "write8 a v c = c\<lparr>memory := (memory c)[a mod 4096 := v]\<rparr>"

definition read16 :: "chip8 \<Rightarrow> nat \<Rightarrow> nat" where
  "read16 c a = unat (read8 c a) * 256 + unat (read8 c (a + 1))"

definition setV :: "nat \<Rightarrow> byte \<Rightarrow> chip8 \<Rightarrow> chip8" where
  "setV x v c = c\<lparr>V := (V c)[x := v]\<rparr>"

text \<open>Modelled from the spec: section 4.4, \<open>tick()\<close>.\<close>

definition tick_timers :: "chip8 \<Rightarrow> chip8" where
  "tick_timers c =
     c\<lparr>delay_timer := (if delay_timer c = 0 then 0 else delay_timer c - 1),
       sound_timer := (if sound_timer c = 0 then 0 else sound_timer c - 1)\<rparr>"

text \<open>
  Modelled from the spec: section 4.5, \<open>set_key\<close> and \<open>is_pressed\<close>. An index past 15 is
  rejected by \<open>set_key\<close>; the specification names no error for it (\<open>InvalidKey\<close> here) and
  does not say what \<open>is_pressed\<close> answers for one (not pressed here).
\<close>

definition set_key :: "nat \<Rightarrow> bool \<Rightarrow> chip8 \<Rightarrow> exn \<times> chip8 + chip8" where
  "set_key k pressed c =
     (if k < 16 then Inr (c\<lparr>keys := (keys c)[k := pressed]\<rparr>) else Inl (InvalidKey, c))"

definition is_pressed :: "chip8 \<Rightarrow> nat \<Rightarrow> bool" where
  "is_pressed c k = (k < 16 \<and> k < length (keys c) \<and> keys c ! k)"

text \<open>
  Modelled from the spec: \<open>handle_input()\<close>, of which the specification says only that
  the host writes the latch from the platform's key events: \<open>kb\<close> is the platform's state
  of the 16 mapped keys, written with \<open>set_key\<close> key by key.
\<close>

fun set_keys :: "nat list \<Rightarrow> bool list \<Rightarrow> chip8 \<Rightarrow> exn \<times> chip8 + chip8" where
  "set_keys [] kb c = Inr c"
| "set_keys (k # ks) kb c =
     (case set_key k (k < length kb \<and> kb ! k) c of
        Inl ec \<Rightarrow> Inl ec
      | Inr c' \<Rightarrow> set_keys ks kb c')"

text \<open>
  Modelled from the spec: the instruction table of section 4.3, group by group. A skip
  adds 2 to the program counter, which is already past the instruction.
\<close>

definition skip_if :: "bool \<Rightarrow> chip8 \<Rightarrow> chip8" where
  "skip_if b c = (if b then c\<lparr>pc := pc c + 2\<rparr> else c)"

definition flag :: "bool \<Rightarrow> byte" where
  "flag b = (if b then 1 else 0)"

text \<open>
  Modelled from the spec: the rows 8XY0 to 8XYE of the table; the two writes of one row
  are made in the order the table gives them.
\<close>

definition alu :: "nat \<Rightarrow> nat \<Rightarrow> nat \<Rightarrow> chip8 \<Rightarrow> exn + chip8" where
  "alu x y n c =
     (let vx = V c ! x; vy = V c ! y in
      if n = 0 then Inr (setV x vy c)
      else if n = 1 then Inr (setV x (vx OR vy) c)
      else if n = 2 then Inr (setV x (vx AND vy) c)
      else if n = 3 then Inr (setV x (vx XOR vy) c)
      else if n = 4 then Inr (setV 15 (flag (unat vx + unat vy > 255)) (setV x (vx + vy) c))
      else if n = 5 then Inr (setV 15 (flag (vy \<le> vx)) (setV x (vx - vy) c))
      else if n = 6 then Inr (setV x (drop_bit 1 vx) (setV 15 (vx AND 1) c))
      else if n = 7 then Inr (setV 15 (flag (vx \<le> vy)) (setV x (vy - vx) c))
      else if n = 14 then Inr (setV x (push_bit 1 vx) (setV 15 (drop_bit 7 vx) c))
      else Inl IllegalOpcode)"

text \<open>
  Modelled from the spec: the row DXYN of the table. The sprite's bit \<open>k\<close> of row \<open>r\<close>
  goes to pixel \<open>((x + k) mod 64, (y + r) mod 32)\<close>; a set bit flips the pixel, and VF
  becomes 1 when a pixel goes from 1 to 0.
\<close>

definition flip_pixel :: "nat \<Rightarrow> nat \<Rightarrow> chip8 \<Rightarrow> chip8" where
  "flip_pixel px py c =
     (let i = (py mod 32) * 64 + px mod 64; old = display c ! i in
      (if old = 1 then setV 15 1 c else c)\<lparr>display := (display c)[i := old XOR 1]\<rparr>)"

fun draw_byte :: "nat \<Rightarrow> nat \<Rightarrow> byte \<Rightarrow> nat list \<Rightarrow> chip8 \<Rightarrow> chip8" where
  "draw_byte x y b [] c = c"
| "draw_byte x y b (k # ks) c =
     draw_byte x y b ks (if bit b (7 - k) then flip_pixel (x + k) y c else c)"

fun draw_sprite :: "nat \<Rightarrow> nat \<Rightarrow> nat list \<Rightarrow> chip8 \<Rightarrow> chip8" where
  "draw_sprite x y [] c = c"
| "draw_sprite x y (r # rs) c =
     draw_sprite x y rs (draw_byte x (y + r) (read8 c (unat (I c) + r)) [0..<8] c)"

definition draw :: "nat \<Rightarrow> nat \<Rightarrow> nat \<Rightarrow> chip8 \<Rightarrow> chip8" where
  "draw x y n c =
     (draw_sprite (unat (V c ! x) mod 64) (unat (V c ! y) mod 32) [0..<n] (setV 15 0 c))
       \<lparr>draw_flag := True\<rparr>"

fun store_regs :: "nat list \<Rightarrow> chip8 \<Rightarrow> chip8" where
  "store_regs [] c = c"
| "store_regs (i # is) c = store_regs is (write8 (unat (I c) + i) (V c ! i) c)"

fun load_regs :: "nat list \<Rightarrow> chip8 \<Rightarrow> chip8" where
  "load_regs [] c = c"
| "load_regs (i # is) c = load_regs is (setV i (read8 c (unat (I c) + i)) c)"

text \<open>
  Modelled from the spec: the rows FX07 to FX65 of the table. FX0A starts the wait of
  section 5: the program counter goes back to the instruction and the mode remembers the
  register and the keys as they are now.
\<close>

definition misc :: "nat \<Rightarrow> nat \<Rightarrow> chip8 \<Rightarrow> exn + chip8" where
  "misc x nn c =
     (let vx = V c ! x; a = unat (I c) in
      if nn = 0x07 then Inr (setV x (delay_timer c) c)
      else if nn = 0x0A then Inr (c\<lparr>pc := pc c - 2, mode := AwaitingKey x (keys c)\<rparr>)
      else if nn = 0x15 then Inr (c\<lparr>delay_timer := vx\<rparr>)
      else if nn = 0x18 then Inr (c\<lparr>sound_timer := vx\<rparr>)
      else if nn = 0x1E then Inr (c\<lparr>I := I c + ucast vx\<rparr>)
      else if nn = 0x29 then Inr (c\<lparr>I := ucast vx * 5\<rparr>)
      else if nn = 0x33 then
        Inr (write8 (a + 2) (vx mod 10)
              (write8 (a + 1) ((vx div 10) mod 10) (write8 a (vx div 100) c)))
      else if nn = 0x55 then Inr (store_regs [0..<x + 1] c)
      else if nn = 0x65 then Inr (load_regs [0..<x + 1] c)
      else Inl IllegalOpcode)"

text \<open>
  Modelled from the spec: decode and execute, steps 3 and 4 of section 4.3, for the
  instruction \<open>w\<close>, a number below 65536, on the state whose program counter is
  already past it; \<open>r\<close> is the random byte of CXNN.
\<close>

definition execute :: "byte \<Rightarrow> nat \<Rightarrow> chip8 \<Rightarrow> exn + chip8" where
  "execute r w c =
     (let t = w div 4096; x = (w div 256) mod 16; y = (w div 16) mod 16;
          n = w mod 16; nn = w mod 256; nnn = w mod 4096;
          vx = V c ! x; vy = V c ! y in
      if w = 0x00E0 then Inr (c\<lparr>display := replicate 2048 0, draw_flag := True\<rparr>)
      else if w = 0x00EE then
        (if stack c = [] then Inl StackUnderflow
         else Inr (c\<lparr>pc := last (stack c), stack := butlast (stack c)\<rparr>))
      else if t = 1 then Inr (c\<lparr>pc := of_nat nnn\<rparr>)
      else if t = 2 then
        (if 16 \<le> length (stack c) then Inl StackOverflow
         else Inr (c\<lparr>stack := stack c @ [pc c], pc := of_nat nnn\<rparr>))
      else if t = 3 then Inr (skip_if (vx = of_nat nn) c)
      else if t = 4 then Inr (skip_if (vx \<noteq> of_nat nn) c)
      else if t = 5 \<and> n = 0 then Inr (skip_if (vx = vy) c)
      else if t = 6 then Inr (setV x (of_nat nn) c)
      else if t = 7 then Inr (setV x (vx + of_nat nn) c)
      else if t = 8 then alu x y n c
      else if t = 9 \<and> n = 0 then Inr (skip_if (vx \<noteq> vy) c)
      else if t = 10 then Inr (c\<lparr>I := of_nat nnn\<rparr>)
      else if t = 11 then Inr (c\<lparr>pc := of_nat nnn + ucast (V c ! 0)\<rparr>)
      else if t = 12 then Inr (setV x (r AND of_nat nn) c)
      else if t = 13 then Inr (draw x y n c)
      else if t = 14 \<and> nn = 0x9E then Inr (skip_if (is_pressed c (unat vx)) c)
      else if t = 14 \<and> nn = 0xA1 then Inr (skip_if (\<not> is_pressed c (unat vx)) c)
      else if t = 15 then misc x nn c
      else Inl IllegalOpcode)"

text \<open>
  Modelled from the spec: the poll of a waiting FX0A (section 5): the first key that is
  pressed now and was not at the last poll goes to the register, and the program counter
  moves on.
\<close>

definition poll_key :: "nat \<Rightarrow> bool list \<Rightarrow> chip8 \<Rightarrow> chip8" where
  "poll_key x prev c =
     (case find (\<lambda>k. is_pressed c k \<and> \<not> (k < length prev \<and> prev ! k)) [0..<16] of
        Some k \<Rightarrow> (setV x (of_nat k) c)\<lparr>mode := Running, pc := pc c + 2\<rparr>
      | None \<Rightarrow> c\<lparr>mode := AwaitingKey x (keys c)\<rparr>)"

text \<open>
  Modelled from the spec: \<open>step()\<close>, one cycle (\<open>emulate_cycle()\<close> in main.py): fetch,
  advance the program counter by 2, decode and execute. The specification does not say
  what a failed step leaves behind; here it leaves the state as it was.
\<close>

definition step :: "byte \<Rightarrow> chip8 \<Rightarrow> exn \<times> chip8 + chip8" where
  "step r c =
     (case mode c of
        AwaitingKey x prev \<Rightarrow> Inr (poll_key x prev c)
      | Running \<Rightarrow>
          if 4096 \<le> unat (pc c) then Inl (FetchOutOfRange, c)
          else (case execute r (read16 c (unat (pc c))) (c\<lparr>pc := pc c + 2\<rparr>) of
              Inl e \<Rightarrow> Inl (e, c)
            | Inr c' \<Rightarrow> Inr c'))"

text \<open>
  Modelled from the spec: the four methods of \<open>Chip8\<close> that main.py calls, together.
  \<open>fs\<close> gives the bytes of the files that can be read, \<open>kb\<close> the keyboard at each call
  of \<open>handle_input\<close> and \<open>rnd\<close> the random byte of each cycle.
\<close>

definition spec_core ::
  "byte list \<Rightarrow> (string \<Rightarrow> byte list option) \<Rightarrow> (nat \<Rightarrow> bool list) \<Rightarrow> (nat \<Rightarrow> byte) \<Rightarrow> core" where
  "spec_core font fs kb rnd =
     \<lparr>Chip8_init = Chip8_new font,
      Chip8_load_rom = (\<lambda>filename c.
         case fs filename of None \<Rightarrow> Inl (OSError, c) | Some rom \<Rightarrow> load rom c),
      Chip8_handle_input = (\<lambda>i. set_keys [0..<16] (kb i)),
      Chip8_emulate_cycle = (\<lambda>j. step (rnd j))\<rparr>"

section \<open>Closed forms and a concrete run\<close>

text \<open>
  What \<open>draw_row\<close> and \<open>draw_rows\<close> leave on the surface, written without the loops:
  \<open>paint_row d y X s\<close> after the blocks \<open>X\<close> of row \<open>y\<close>, \<open>paint d Y s\<close> after the
  rows \<open>Y\<close>.
\<close>

definition paint_row :: "int list \<Rightarrow> nat \<Rightarrow> nat set \<Rightarrow> surface \<Rightarrow> surface" where
  "paint_row d y X s =
     (\<lambda>(px, py). if px div 10 \<in> X \<and> py div 10 = y
        then (if d ! (y * 64 + px div 10) = 1 then white else black) else s (px, py))"

definition paint :: "int list \<Rightarrow> nat set \<Rightarrow> surface \<Rightarrow> surface" where
  "paint d Y s =
     (\<lambda>(px, py). if px div 10 < 64 \<and> py div 10 \<in> Y
        then (if d ! ((py div 10) * 64 + px div 10) = 1 then white else black) else s (px, py))"

text \<open>
  The framebuffer as the interpreter of the specification keeps it: 2048 entries, for a
  display of 64 by 32.
\<close>

definition display_ok :: "chip8 \<Rightarrow> bool" where
  "display_ok c \<longleftrightarrow> length (display c) = 2048 \<and> DISPLAY_WIDTH c = 64 \<and> DISPLAY_HEIGHT c = 32"

text \<open>
  A run to evaluate the host on, with the interpreter of the specification: an empty
  font, no key pressed, the random byte 0 and three files. \<open>demo.ch8\<close> is the program
  \<open>6005 F015 1204\<close>: V0 := 5, delay timer := V0, then a jump to itself at 0x204.
  \<open>ret.ch8\<close> is \<open>00EE\<close>, a return with an empty stack. \<open>big.ch8\<close> has 3585 bytes, one
  more than the program area holds.
\<close>

definition demo_rom :: "byte list" where
  "demo_rom = [0x60, 0x05, 0xF0, 0x15, 0x12, 0x04]"

definition ret_rom :: "byte list" where
  "ret_rom = [0x00, 0xEE]"

definition demo_fs :: "string \<Rightarrow> byte list option" where
  "demo_fs f =
     (if f = ''demo.ch8'' then Some demo_rom
      else if f = ''ret.ch8'' then Some ret_rom
      else if f = ''big.ch8'' then Some (replicate 3585 0)
      else None)"

definition demo_core :: core where
  "demo_core = spec_core [] demo_fs (\<lambda>i. []) (\<lambda>j. 0)"

text \<open>
  The interpreter after \<open>demo.ch8\<close> is loaded and after its first ten cycles, the host
  after the load (\<open>demo_start\<close>) and after the first pass of the loop (\<open>demo_gui\<close>).
  \<open>lit_gui\<close> has the pixel (2, 1) of the framebuffer set. \<open>ret_start\<close> is the host after
  \<open>ret.ch8\<close> is loaded.
\<close>

definition demo_loaded :: chip8 where
  "demo_loaded = (Chip8_new [])\<lparr>memory := replicate 512 0 @ demo_rom @ replicate 3578 0\<rparr>"

definition demo_looping :: chip8 where
  "demo_looping = demo_loaded\<lparr>pc := 0x204, V := (replicate 16 0)[0 := 5], delay_timer := 5\<rparr>"

definition demo_start :: gui where
  "demo_start =
     (EmulatorGUI demo_core)
       \<lparr>chip8 := demo_loaded, rom_loaded := True, paused := False,
        status_label := (''Running: demo.ch8'', ''green'')\<rparr>"

definition demo_gui :: gui where
  "demo_gui =
     demo_start
       \<lparr>screen := paint (replicate 2048 0) {0..<32} (\<lambda>p. black),
        window := paint (replicate 2048 0) {0..<32} (\<lambda>p. black),
        chip8 := demo_looping\<lparr>draw_flag := False\<rparr>\<rparr>"

definition lit_gui :: gui where
  "lit_gui = demo_start\<lparr>chip8 := demo_loaded\<lparr>display := (replicate 2048 0)[66 := 1]\<rparr>\<rparr>"

definition ret_loaded :: chip8 where
  "ret_loaded = (Chip8_new [])\<lparr>memory := replicate 512 0 @ ret_rom @ replicate 3582 0\<rparr>"

definition ret_start :: gui where
  "ret_start =
     (EmulatorGUI demo_core)
       \<lparr>chip8 := ret_loaded, rom_loaded := True, paused := False,
        status_label := (''Running: ret.ch8'', ''green'')\<rparr>"

section \<open>The painting loops\<close>

lemma block_div: "(x * 10 \<le> px \<and> px < (x + 1) * 10) = (px div 10 = (x::nat))"
  by auto

lemma blit_paint_row:
  "paint_row d y X (blit s x y (if d ! (y * 64 + x) = 1 then white else black)) =
   paint_row d y (insert x X) s"
  by (auto simp: paint_row_def blit_def fun_eq_iff block_div)

lemma draw_row_ok:
  "\<forall>x\<in>set xs. y * 64 + x < length d \<Longrightarrow> draw_row d y xs s = Inr (paint_row d y (set xs) s)"
proof (induction xs arbitrary: s)
  case Nil
  show ?case by (simp add: paint_row_def)
next
  case (Cons x xs)
  then show ?case by (simp add: blit_paint_row)
qed

lemma draw_row_Inr:
  "draw_row d y xs s = Inr s' \<Longrightarrow> \<forall>x\<in>set xs. y * 64 + x < length d"
  by (induction xs arbitrary: s) (auto split: if_splits)

lemma draw_row_Inl: "draw_row d y xs s = Inl (e, s') \<Longrightarrow> e = IndexError"
  by (induction xs arbitrary: s) (auto split: if_splits)

lemma paint_row_paint:
  "paint d Y (paint_row d y {0..<64} s) = paint d (insert y Y) s"
  by (auto simp: paint_def paint_row_def fun_eq_iff)

lemma draw_rows_ok:
  "\<forall>y\<in>set ys. y * 64 + 63 < length d \<Longrightarrow> draw_rows d ys s = Inr (paint d (set ys) s)"
proof (induction ys arbitrary: s)
  case Nil
  show ?case by (simp add: paint_def)
next
  case (Cons y ys)
  have "draw_row d y [0..<64] s = Inr (paint_row d y (set [0..<64]) s)"
    using Cons.prems by (intro draw_row_ok) auto
  then show ?case using Cons by (simp add: paint_row_paint)
qed

lemma draw_rows_Inr:
  "draw_rows d ys s = Inr s' \<Longrightarrow> \<forall>y\<in>set ys. y * 64 + 63 < length d"
proof (induction ys arbitrary: s)
  case Nil
  show ?case by simp
next
  case (Cons y ys)
  then obtain s1 where r: "draw_row d y [0..<64] s = Inr s1" and rs: "draw_rows d ys s1 = Inr s'"
    by (auto split: sum.splits)
  from draw_row_Inr [OF r] have "y * 64 + 63 < length d" by auto
  with Cons.IH [OF rs] show ?case by simp
qed

lemma draw_rows_Inl: "draw_rows d ys s = Inl (e, s') \<Longrightarrow> e = IndexError"
  by (induction ys arbitrary: s) (auto split: sum.splits dest: draw_row_Inl)

lemma draw_display_iff:
  "draw_display g = Inr g' \<longleftrightarrow>
   2048 \<le> length (display (chip8 g)) \<and> g' = g\<lparr>screen := paint (display (chip8 g)) {0..<32} (screen g)\<rparr>"
proof
  assume a: "draw_display g = Inr g'"
  then obtain s where r: "draw_rows (display (chip8 g)) [0..<32] (screen g) = Inr s"
    and g': "g' = g\<lparr>screen := s\<rparr>"
    by (auto simp: draw_display_def split: sum.splits)
  from draw_rows_Inr [OF r] have "\<forall>y\<in>set [0..<32]. y * 64 + 63 < length (display (chip8 g))" .
  then have "(31::nat) * 64 + 63 < length (display (chip8 g))" by (rule bspec) simp
  then have len: "2048 \<le> length (display (chip8 g))" by simp
  then have "\<forall>y\<in>set [0..<32]. y * 64 + 63 < length (display (chip8 g))" by auto
  from draw_rows_ok [OF this, of "screen g"] r g' len
  show "2048 \<le> length (display (chip8 g)) \<and> g' = g\<lparr>screen := paint (display (chip8 g)) {0..<32} (screen g)\<rparr>"
    by simp
next
  assume a: "2048 \<le> length (display (chip8 g)) \<and> g' = g\<lparr>screen := paint (display (chip8 g)) {0..<32} (screen g)\<rparr>"
  then have "\<forall>y\<in>set [0..<32]. y * 64 + 63 < length (display (chip8 g))" by auto
  from draw_rows_ok [OF this, of "screen g"] a show "draw_display g = Inr g'"
    by (simp add: draw_display_def)
qed

lemma paint_block:
  "x < 64 \<Longrightarrow> y < 32 \<Longrightarrow> dx < 10 \<Longrightarrow> dy < 10 \<Longrightarrow>
   paint d {0..<32} s (10 * x + dx, 10 * y + dy) = (if d ! (y * 64 + x) = 1 then white else black)"
  by (simp add: paint_def)

lemma update_display_Inr:
  "update_display g = Inr g' \<longleftrightarrow>
   (if draw_flag (chip8 g)
    then 2048 \<le> length (display (chip8 g)) \<and>
         g' = g\<lparr>screen := paint (display (chip8 g)) {0..<32} (\<lambda>p. black),
                window := paint (display (chip8 g)) {0..<32} (\<lambda>p. black),
                chip8 := (chip8 g)\<lparr>draw_flag := False\<rparr>\<rparr>
    else g' = g)"
proof (cases "draw_flag (chip8 g)")
  case False
  then show ?thesis by (auto simp: update_display_def)
next
  case True
  let ?g0 = "g\<lparr>screen := (\<lambda>p. black)\<rparr>"
  show ?thesis
  proof (cases "draw_display ?g0")
    case (Inl eg)
    then have "\<not> 2048 \<le> length (display (chip8 g))"
      using draw_display_iff [of ?g0] by auto
    with Inl True show ?thesis by (simp add: update_display_def)
  next
    case (Inr g1)
    then have "2048 \<le> length (display (chip8 g))"
      and "g1 = g\<lparr>screen := paint (display (chip8 g)) {0..<32} (\<lambda>p. black)\<rparr>"
      using draw_display_iff [of ?g0 g1] by auto
    with Inr True show ?thesis by (auto simp: update_display_def)
  qed
qed

lemma update_display_Inl:
  "update_display g = Inl (e, g') \<Longrightarrow> chip8 g' = chip8 g \<and> window g' = window g"
  by (auto simp: update_display_def draw_display_def split: sum.splits if_splits)

lemma update_display_Inl_IndexError:
  "update_display g = Inl (e, g') \<Longrightarrow> e = IndexError"
  by (auto simp: update_display_def draw_display_def split: sum.splits if_splits dest: draw_rows_Inl)

lemma clear_draw_flag: "\<not> draw_flag c \<Longrightarrow> c\<lparr>draw_flag := False\<rparr> = (c::chip8)"
  by (cases c) simp

section \<open>The passes of the emulation loop\<close>

lemma run_cycles_chain:
  "run_cycles K j n c = Inr c' \<Longrightarrow>
   \<exists>cs. length cs = Suc n \<and> cs ! 0 = c \<and> cs ! n = c' \<and>
     (\<forall>i<n. Chip8_emulate_cycle K (j + i) (cs ! i) = Inr (cs ! Suc i))"
proof (induction n arbitrary: j c)
  case 0
  then have "length [c] = Suc 0 \<and> [c] ! 0 = c \<and> [c] ! 0 = c'" by simp
  then show ?case by blast
next
  case (Suc n)
  from Suc.prems obtain c1 where
    first: "Chip8_emulate_cycle K j c = Inr c1" and rest: "run_cycles K (Suc j) n c1 = Inr c'"
    by (auto split: sum.splits)
  from Suc.IH [OF rest] obtain cs where
    cs: "length cs = Suc n" "cs ! 0 = c1" "cs ! n = c'"
        "\<forall>i<n. Chip8_emulate_cycle K (Suc j + i) (cs ! i) = Inr (cs ! Suc i)"
    by blast
  have "\<forall>i<Suc n. Chip8_emulate_cycle K (j + i) ((c # cs) ! i) = Inr ((c # cs) ! Suc i)"
  proof (intro allI impI)
    fix i assume "i < Suc n"
    then show "Chip8_emulate_cycle K (j + i) ((c # cs) ! i) = Inr ((c # cs) ! Suc i)"
      using first cs by (cases i) auto
  qed
  then have "length (c # cs) = Suc (Suc n) \<and> (c # cs) ! 0 = c \<and> (c # cs) ! Suc n = c' \<and>
     (\<forall>i<Suc n. Chip8_emulate_cycle K (j + i) ((c # cs) ! i) = Inr ((c # cs) ! Suc i))"
    using cs by simp
  then show ?case by blast
qed

lemma chain_run_cycles:
  "length cs = Suc n \<Longrightarrow>
   \<forall>i<n. Chip8_emulate_cycle K (j + i) (cs ! i) = Inr (cs ! Suc i) \<Longrightarrow>
   run_cycles K j n (cs ! 0) = Inr (cs ! n)"
proof (induction n arbitrary: j cs)
  case 0
  show ?case by simp
next
  case (Suc n)
  from Suc.prems(1) obtain c cs' where cs: "cs = c # cs'" and len: "length cs' = Suc n"
    by (cases cs) auto
  have first: "Chip8_emulate_cycle K j c = Inr (cs' ! 0)"
    using Suc.prems(2) [rule_format, of 0] cs by simp
  have "\<forall>i<n. Chip8_emulate_cycle K (Suc j + i) (cs' ! i) = Inr (cs' ! Suc i)"
  proof (intro allI impI)
    fix i assume "i < n"
    then show "Chip8_emulate_cycle K (Suc j + i) (cs' ! i) = Inr (cs' ! Suc i)"
      using Suc.prems(2) [rule_format, of "Suc i"] cs by simp
  qed
  from Suc.IH [OF len this] first cs show ?case by simp
qed

lemma run_cycles_numeral:
  "run_cycles K j (numeral n) c =
     (case Chip8_emulate_cycle K j c of
        Inl ec \<Rightarrow> Inl ec
      | Inr c' \<Rightarrow> run_cycles K (Suc j) (pred_numeral n) c')"
  by (simp add: numeral_eq_Suc)

lemma handle_events_shape:
  "case handle_events K i evs g of
     Inl (e, g') \<Rightarrow> \<exists>c. g' = g\<lparr>chip8 := c\<rparr>
   | Inr (b, g') \<Rightarrow> \<exists>c. g' = (if b then quit_emulator (g\<lparr>chip8 := c\<rparr>) else g\<lparr>chip8 := c\<rparr>)"
proof (induction evs arbitrary: i g)
  case Nil
  have "g = g\<lparr>chip8 := chip8 g\<rparr>" by simp
  then show ?case by (auto intro: exI [of _ "chip8 g"])
next
  case (Cons ev evs)
  show ?case
  proof (cases "ev = QUIT")
    case True
    have "g = g\<lparr>chip8 := chip8 g\<rparr>" by simp
    then show ?thesis using True by (auto intro: exI [of _ "chip8 g"])
  next
    case False
    show ?thesis
    proof (cases "Chip8_handle_input K i (chip8 g)")
      case (Inl ec)
      then show ?thesis using False by (cases ec) auto
    next
      case (Inr c)
      from Cons.IH [where i = "Suc i" and g = "g\<lparr>chip8 := c\<rparr>"] Inr False show ?thesis
        by (auto split: sum.splits prod.splits)
    qed
  qed
qed

lemma handle_events_Inr_False:
  "handle_events K i evs g = Inr (False, g1) \<Longrightarrow> \<exists>c. g1 = g\<lparr>chip8 := c\<rparr>"
  using handle_events_shape [where K = K and i = i and evs = evs and g = g] by simp

lemma handle_events_Inr_True:
  "handle_events K i evs g = Inr (True, g1) \<Longrightarrow> \<exists>c. g1 = quit_emulator (g\<lparr>chip8 := c\<rparr>)"
  using handle_events_shape [where K = K and i = i and evs = evs and g = g] by simp

lemma handle_events_Inl:
  "handle_events K i evs g = Inl (e, g1) \<Longrightarrow> \<exists>c. g1 = g\<lparr>chip8 := c\<rparr>"
  using handle_events_shape [where K = K and i = i and evs = evs and g = g] by simp

lemma running_pass_cases:
  assumes "running g" "rom_loaded g" "\<not> paused g"
  shows "(\<exists>g1 c. handle_events K 0 evs g = Inr (False, g1) \<and> g1\<lparr>chip8 := c\<rparr> = g\<lparr>chip8 := c\<rparr> \<and>
            run_cycles K 0 10 (chip8 g1) = Inr c \<and>
            emulation_loop_pass K evs g =
              (case update_display (g\<lparr>chip8 := c\<rparr>) of
                 Inl (e, g') \<Rightarrow> (Raised e, g') | Inr g' \<Rightarrow> (Continue, g')))
       \<or> (fst (emulation_loop_pass K evs g) \<noteq> Continue \<and>
          screen (snd (emulation_loop_pass K evs g)) = screen g \<and>
          window (snd (emulation_loop_pass K evs g)) = window g \<and>
          dialogs (snd (emulation_loop_pass K evs g)) = dialogs g \<and>
          (\<forall>g1 c. handle_events K 0 evs g = Inr (False, g1) \<longrightarrow>
             run_cycles K 0 10 (chip8 g1) \<noteq> Inr c))"
proof (cases "handle_events K 0 evs g")
  case (Inl eg)
  obtain e g1 where eg: "eg = (e, g1)" by (cases eg)
  from handle_events_Inl [of K 0 evs g e g1] Inl eg obtain c where "g1 = g\<lparr>chip8 := c\<rparr>" by auto
  with Inl eg assms show ?thesis by (simp add: emulation_loop_pass_def)
next
  case (Inr bg)
  obtain b g1 where bg: "bg = (b, g1)" by (cases bg)
  show ?thesis
  proof (cases b)
    case True
    from handle_events_Inr_True [of K 0 evs g g1] Inr bg True
    obtain c where "g1 = quit_emulator (g\<lparr>chip8 := c\<rparr>)" by auto
    with Inr bg True assms show ?thesis by (simp add: emulation_loop_pass_def quit_emulator_def)
  next
    case False
    from handle_events_Inr_False [of K 0 evs g g1] Inr bg False
    obtain c0 where g1: "g1 = g\<lparr>chip8 := c0\<rparr>" by auto
    show ?thesis
    proof (cases "run_cycles K 0 10 (chip8 g1)")
      case (Inl ec)
      with Inr bg False g1 assms show ?thesis
        by (cases ec) (simp add: emulation_loop_pass_def)
    next
      case cyc: (Inr c)
      have "g1\<lparr>chip8 := c\<rparr> = g\<lparr>chip8 := c\<rparr>" using g1 by simp
      with Inr bg False cyc assms have
        "handle_events K 0 evs g = Inr (False, g1) \<and> g1\<lparr>chip8 := c\<rparr> = g\<lparr>chip8 := c\<rparr> \<and>
         run_cycles K 0 10 (chip8 g1) = Inr c \<and>
         emulation_loop_pass K evs g =
           (case update_display (g\<lparr>chip8 := c\<rparr>) of
              Inl (e, g') \<Rightarrow> (Raised e, g') | Inr g' \<Rightarrow> (Continue, g'))"
        by (simp add: emulation_loop_pass_def)
      then show ?thesis by blast
    qed
  qed
qed

section \<open>The loader of the specification\<close>

lemma Chip8_new_memory_length: "length (memory (Chip8_new font)) = 4096"
  by (simp add: Chip8_new_def)

lemma load_ok:
  assumes "length rom \<le> 3584" and "length (memory c) = 4096"
  shows "\<exists>c'. load rom c = Inr c' \<and>
           stack c' = [] \<and> V c' = replicate 16 0 \<and> I c' = 0 \<and> pc c' = 0x200 \<and>
           delay_timer c' = 0 \<and> sound_timer c' = 0 \<and>
           display c' = replicate 2048 0 \<and> draw_flag c' \<and>
           keys c' = replicate 16 False \<and> mode c' = Running \<and>
           length (memory c') = 4096 \<and>
           (\<forall>i<length rom. memory c' ! (0x200 + i) = rom ! i) \<and>
           (\<forall>a<0x200. memory c' ! a = memory c ! a) \<and>
           (\<forall>a. 0x200 + length rom \<le> a \<and> a < 4096 \<longrightarrow> memory c' ! a = 0)"
  using assms by (auto simp: load_def nth_append)

section \<open>The framebuffer of the interpreter of the specification\<close>

text \<open>
  No instruction, no key event, no load and no reset changes the length of the
  framebuffer, so with this interpreter the repaint of a pass never reads past its end.
\<close>

lemma display_ok_setV: "display_ok (setV x v c) = display_ok c"
  by (simp add: display_ok_def setV_def)

lemma display_ok_write8: "display_ok (write8 a v c) = display_ok c"
  by (simp add: display_ok_def write8_def)

lemma display_ok_skip_if: "display_ok (skip_if b c) = display_ok c"
  by (simp add: display_ok_def skip_if_def)

lemma display_ok_fields:
  "display_ok (c\<lparr>pc := p\<rparr>) = display_ok c"
  "display_ok (c\<lparr>I := a\<rparr>) = display_ok c"
  "display_ok (c\<lparr>mode := m\<rparr>) = display_ok c"
  "display_ok (c\<lparr>stack := s\<rparr>) = display_ok c"
  "display_ok (c\<lparr>keys := k\<rparr>) = display_ok c"
  "display_ok (c\<lparr>draw_flag := b\<rparr>) = display_ok c"
  by (simp_all add: display_ok_def)

lemma display_ok_flip_pixel: "display_ok (flip_pixel px py c) = display_ok c"
  by (simp add: display_ok_def flip_pixel_def Let_def setV_def)

lemma display_ok_draw_byte: "display_ok (draw_byte x y b ks c) = display_ok c"
  by (induction ks arbitrary: c) (simp_all add: display_ok_flip_pixel)

lemma display_ok_draw_sprite: "display_ok (draw_sprite x y rs c) = display_ok c"
  by (induction rs arbitrary: c) (simp_all add: display_ok_draw_byte)

lemma display_ok_draw: "display_ok (draw x y n c) = display_ok c"
proof -
  have "display_ok (c'\<lparr>draw_flag := True\<rparr>) = display_ok c'" for c'
    by (simp add: display_ok_def)
  then show ?thesis by (simp add: draw_def display_ok_draw_sprite display_ok_setV)
qed

lemma display_ok_store_regs: "display_ok (store_regs is c) = display_ok c"
  by (induction "is" arbitrary: c) (simp_all add: display_ok_write8)

lemma display_ok_load_regs: "display_ok (load_regs is c) = display_ok c"
  by (induction "is" arbitrary: c) (simp_all add: display_ok_setV)

lemma display_ok_alu: "alu x y n c = Inr c' \<Longrightarrow> display_ok c' = display_ok c"
  by (auto simp: alu_def Let_def display_ok_setV split: if_splits)

lemma display_ok_misc: "misc x nn c = Inr c' \<Longrightarrow> display_ok c' = display_ok c"
  by (auto simp: misc_def Let_def display_ok_setV display_ok_write8 display_ok_store_regs
      display_ok_load_regs display_ok_def [of "c\<lparr>pc := a, mode := b\<rparr>" for a b]
      display_ok_def [of "c\<lparr>delay_timer := a\<rparr>" for a]
      display_ok_def [of "c\<lparr>sound_timer := a\<rparr>" for a]
      display_ok_def [of "c\<lparr>I := a\<rparr>" for a] display_ok_def [of c]
      split: if_splits)

lemma display_ok_execute:
  "display_ok c \<Longrightarrow> execute r w c = Inr c' \<Longrightarrow> display_ok c'"
  unfolding execute_def Let_def
  by (auto simp: display_ok_fields display_ok_skip_if display_ok_setV display_ok_draw
      display_ok_alu display_ok_misc split: if_splits)
    (simp add: display_ok_def)

lemma display_ok_poll_key: "display_ok (poll_key x prev c) = display_ok c"
  by (simp add: poll_key_def display_ok_fields display_ok_setV split: option.splits)

lemma display_ok_step:
  assumes "display_ok c" and "step r c = Inr c'"
  shows "display_ok c'"
proof (cases "mode c")
  case Running
  with assms(2) have "execute r (read16 c (unat (pc c))) (c\<lparr>pc := pc c + 2\<rparr>) = Inr c'"
    by (auto simp: step_def split: if_splits sum.splits)
  moreover have "display_ok (c\<lparr>pc := pc c + 2\<rparr>)"
    using assms(1) by (simp add: display_ok_fields)
  ultimately show ?thesis by (rule display_ok_execute [rotated])
next
  case (AwaitingKey x prev)
  with assms show ?thesis by (auto simp: step_def display_ok_poll_key)
qed

lemma display_ok_new: "display_ok (Chip8_new font)"
  by (simp add: display_ok_def Chip8_new_def)

lemma display_ok_load: "display_ok c \<Longrightarrow> load rom c = Inr c' \<Longrightarrow> display_ok c'"
  by (auto simp: load_def display_ok_def split: if_splits)

lemma display_ok_set_keys: "set_keys ks kb c = Inr c' \<Longrightarrow> display_ok c' = display_ok c"
  by (induction ks arbitrary: c)
     (auto simp: set_key_def display_ok_fields split: if_splits sum.splits)

lemma display_ok_reset: "display_ok (chip8 g) \<Longrightarrow> display_ok (chip8 (reset g))"
  by (simp add: reset_def display_ok_def)

lemma display_ok_run_cycles:
  "display_ok c \<Longrightarrow> run_cycles (spec_core font fs kb rnd) j n c = Inr c' \<Longrightarrow> display_ok c'"
proof (induction n arbitrary: j c)
  case 0
  then show ?case by simp
next
  case (Suc n)
  from Suc.prems(2) obtain c1 where
    first: "step (rnd j) c = Inr c1"
    and rest: "run_cycles (spec_core font fs kb rnd) (Suc j) n c1 = Inr c'"
    by (auto simp: spec_core_def split: sum.splits)
  from display_ok_step [OF Suc.prems(1) first] rest show ?case by (rule Suc.IH)
qed

lemma display_ok_handle_events:
  "display_ok (chip8 g) \<Longrightarrow>
   handle_events (spec_core font fs kb rnd) i evs g = Inr (b, g') \<Longrightarrow> display_ok (chip8 g')"
proof (induction evs arbitrary: i g)
  case Nil
  then show ?case by simp
next
  case (Cons ev evs)
  show ?case
  proof (cases "ev = QUIT")
    case True
    with Cons.prems show ?thesis by (auto simp: quit_emulator_def)
  next
    case False
    with Cons.prems(2) obtain c where
      keys: "set_keys [0..<16] (kb i) (chip8 g) = Inr c"
      and rest: "handle_events (spec_core font fs kb rnd) (Suc i) evs (g\<lparr>chip8 := c\<rparr>) = Inr (b, g')"
      by (auto simp: spec_core_def split: sum.splits prod.splits)
    from display_ok_set_keys [OF keys] Cons.prems(1) have "display_ok (chip8 (g\<lparr>chip8 := c\<rparr>))"
      by simp
    from Cons.IH [OF this rest] show ?thesis .
  qed
qed

lemma spec_pass_repaint_never_raises:
  assumes "running g" "rom_loaded g" "\<not> paused g" and ok: "display_ok (chip8 g)"
    and ev: "handle_events (spec_core font fs kb rnd) 0 evs g = Inr (False, g1)"
    and cyc: "run_cycles (spec_core font fs kb rnd) 0 10 (chip8 g1) = Inr c"
  shows "display_ok c \<and> fst (emulation_loop_pass (spec_core font fs kb rnd) evs g) = Continue \<and>
         display_ok (chip8 (snd (emulation_loop_pass (spec_core font fs kb rnd) evs g)))"
proof -
  from display_ok_handle_events [OF ok ev] have "display_ok (chip8 g1)" .
  from display_ok_run_cycles [OF this cyc] have c: "display_ok c" .
  then have len: "2048 \<le> length (display c)" by (simp add: display_ok_def)
  let ?g = "g1\<lparr>chip8 := c\<rparr>"
  obtain g' where upd: "update_display ?g = Inr g'"
    using len by (cases "draw_flag c") (simp_all add: update_display_Inr)
  then have "chip8 g' = c\<lparr>draw_flag := False\<rparr>"
    by (auto simp: update_display_Inr clear_draw_flag split: if_splits)
  with c have "display_ok (chip8 g')" by (simp add: display_ok_fields)
  with assms(1-3) ev cyc upd c show ?thesis by (simp add: emulation_loop_pass_def)
qed

section \<open>The concrete run, evaluated\<close>

lemma demo_core_sel:
  "Chip8_init demo_core = Chip8_new []"
  "Chip8_load_rom demo_core f c = (case demo_fs f of None \<Rightarrow> Inl (OSError, c) | Some rom \<Rightarrow> load rom c)"
  "Chip8_handle_input demo_core i = set_keys [0..<16] []"
  "Chip8_emulate_cycle demo_core j = step 0"
  by (simp_all add: demo_core_def spec_core_def)

lemma load_demo: "load demo_rom (Chip8_new []) = Inr demo_loaded"
  by (simp add: load_def demo_rom_def demo_loaded_def Chip8_new_def replicate_add [symmetric])

lemma demo_loaded_fields:
  "mode demo_loaded = Running" "pc demo_loaded = 0x200" "V demo_loaded = replicate 16 0"
  "stack demo_loaded = []" "delay_timer demo_loaded = 0" "sound_timer demo_loaded = 0"
  "draw_flag demo_loaded" "display demo_loaded = replicate 2048 0"
  by (simp_all add: demo_loaded_def Chip8_new_def)

lemma demo_mem:
  "memory demo_loaded ! 512 = 0x60" "memory demo_loaded ! 513 = 0x05"
  "memory demo_loaded ! 514 = 0xF0" "memory demo_loaded ! 515 = 0x15"
  "memory demo_loaded ! 516 = 0x12" "memory demo_loaded ! 517 = 0x04"
  by (simp_all add: demo_loaded_def demo_rom_def nth_append)

lemma step_fetch:
  "mode c = Running \<Longrightarrow> unat (pc c) < 4095 \<Longrightarrow>
   step r c =
     (case execute r (unat (memory c ! unat (pc c)) * 256 + unat (memory c ! (unat (pc c) + 1)))
             (c\<lparr>pc := pc c + 2\<rparr>) of
        Inl e \<Rightarrow> Inl (e, c) | Inr c' \<Rightarrow> Inr c')"
  by (simp add: step_def read16_def read8_def)

lemma step1: "step r demo_loaded = Inr (demo_loaded\<lparr>pc := 0x202, V := (replicate 16 0)[0 := 5]\<rparr>)"
  by (simp add: step_fetch demo_loaded_fields demo_mem execute_def setV_def)

lemma step2:
  "step r (demo_loaded\<lparr>pc := 0x202, V := (replicate 16 0)[0 := 5]\<rparr>) =
   Inr (demo_loaded\<lparr>pc := 0x204, V := (replicate 16 0)[0 := 5], delay_timer := 5\<rparr>)"
  by (simp add: step_fetch demo_loaded_fields demo_mem execute_def misc_def)

lemma step3:
  "step r (demo_loaded\<lparr>pc := 0x204, V := (replicate 16 0)[0 := 5], delay_timer := 5\<rparr>) =
   Inr (demo_loaded\<lparr>pc := 0x204, V := (replicate 16 0)[0 := 5], delay_timer := 5\<rparr>)"
  by (simp add: step_fetch demo_loaded_fields demo_mem execute_def)

lemma basename_demo: "basename ''demo.ch8'' = ''demo.ch8''"
  by (simp add: basename_def)

lemma demo_load_rom: "load_rom demo_core ''demo.ch8'' (EmulatorGUI demo_core) = demo_start"
  by (simp add: load_rom_def demo_core_sel demo_fs_def load_demo basename_demo demo_start_def)

lemma demo_cycles_first: "run_cycles demo_core 0 10 demo_loaded = Inr demo_looping"
  by (simp add: run_cycles_numeral demo_core_sel step1 step2 step3 demo_looping_def)

lemma demo_cycles_loop: "run_cycles demo_core 0 10 (demo_looping\<lparr>draw_flag := False\<rparr>) =
    Inr (demo_looping\<lparr>draw_flag := False\<rparr>)"
proof -
  have "step 0 (demo_looping\<lparr>draw_flag := False\<rparr>) = Inr (demo_looping\<lparr>draw_flag := False\<rparr>)"
    by (simp add: step_fetch demo_loaded_fields demo_mem execute_def demo_looping_def)
  then show ?thesis by (simp add: run_cycles_numeral demo_core_sel)
qed

lemma demo_start_fields:
  "running demo_start" "rom_loaded demo_start" "\<not> paused demo_start"
  "chip8 demo_start = demo_loaded" "dialogs demo_start = []"
  by (simp_all add: demo_start_def EmulatorGUI_def)

lemma demo_gui_fields:
  "running demo_gui" "rom_loaded demo_gui" "\<not> paused demo_gui"
  "chip8 demo_gui = demo_looping\<lparr>draw_flag := False\<rparr>" "dialogs demo_gui = []"
  by (simp_all add: demo_gui_def demo_start_fields)

lemma demo_looping_fields:
  "pc demo_looping = 0x204" "delay_timer demo_looping = 5" "sound_timer demo_looping = 0"
  "V demo_looping = (replicate 16 0)[0 := 5]" "draw_flag demo_looping"
  "display demo_looping = replicate 2048 0" "memory demo_looping = memory demo_loaded"
  by (simp_all add: demo_looping_def demo_loaded_fields)

lemma demo_pass_first: "emulation_loop_pass demo_core [] demo_start = (Continue, demo_gui)"
proof -
  have "update_display (demo_start\<lparr>chip8 := demo_looping\<rparr>) = Inr demo_gui"
    by (simp add: update_display_Inr demo_looping_fields demo_gui_def)
  then show ?thesis
    by (simp add: emulation_loop_pass_def demo_start_fields demo_cycles_first)
qed

lemma demo_pass_loop: "emulation_loop_pass demo_core [] demo_gui = (Continue, demo_gui)"
proof -
  have same: "demo_gui\<lparr>chip8 := demo_looping\<lparr>draw_flag := False\<rparr>\<rparr> = demo_gui"
    by (simp add: demo_gui_def)
  have "update_display demo_gui = Inr demo_gui"
    by (simp add: update_display_Inr demo_gui_fields)
  then show ?thesis
    by (simp add: emulation_loop_pass_def demo_gui_fields demo_cycles_loop same)
qed

lemma demo_reached:
  "emulation_loop demo_core ([] # []) (load_rom demo_core ''demo.ch8'' (EmulatorGUI demo_core)) =
   (Continue, demo_gui)"
  by (simp add: demo_load_rom demo_pass_first)

lemma load_big: "Chip8_load_rom demo_core ''big.ch8'' c = Inl (RomTooLarge, c)"
  by (simp add: demo_core_sel demo_fs_def load_def)

lemma failed_load_any_core:
  assumes "filename \<noteq> []" and "Chip8_load_rom K filename (Chip8_init K) = Inl (e, c)"
  shows "load_rom K filename g =
           g\<lparr>chip8 := c, dialogs := dialogs g @ [ShowError ''Error'' ''Failed to load ROM: '' e]\<rparr>"
  using assms by (simp add: load_rom_def)

lemma blank_step: "step r (Chip8_new []) = Inl (IllegalOpcode, Chip8_new [])"
proof -
  have f: "mode (Chip8_new []) = Running" "pc (Chip8_new []) = 0x200"
    by (simp_all add: Chip8_new_def)
  have m: "memory (Chip8_new []) ! 512 = 0" "memory (Chip8_new []) ! 513 = 0"
    by (simp_all add: Chip8_new_def nth_append)
  show ?thesis by (simp add: step_fetch f m execute_def)
qed

lemma load_ret: "load ret_rom (Chip8_new []) = Inr ret_loaded"
  by (simp add: load_def ret_rom_def ret_loaded_def Chip8_new_def replicate_add [symmetric])

lemma ret_load_rom: "load_rom demo_core ''ret.ch8'' (EmulatorGUI demo_core) = ret_start"
proof -
  have "basename ''ret.ch8'' = ''ret.ch8''" by (simp add: basename_def)
  then show ?thesis
    by (simp add: load_rom_def demo_core_sel demo_fs_def load_ret ret_start_def)
qed

lemma ret_step: "step r ret_loaded = Inl (StackUnderflow, ret_loaded)"
proof -
  have f: "mode ret_loaded = Running" "pc ret_loaded = 0x200" "stack ret_loaded = []"
    by (simp_all add: ret_loaded_def Chip8_new_def)
  have m: "memory ret_loaded ! 512 = 0x00" "memory ret_loaded ! 513 = 0xEE"
    by (simp_all add: ret_loaded_def ret_rom_def nth_append)
  show ?thesis by (simp add: step_fetch f m execute_def)
qed

section \<open>The claims\<close>

subsection \<open>Loading\<close>

text \<open>
  Claim C1 at a failing input. \<open>load_rom\<close> assigns \<open>self.chip8 = Chip8()\<close> before it calls
  \<open>self.chip8.load_rom(filename)\<close>, and its handler only shows the error box. With
  \<open>demo.ch8\<close> loaded and one pass run, choosing the oversized \<open>big.ch8\<close> makes the load
  fail with \<open>RomTooLarge\<close>, and the interpreter that was running is gone: the program
  counter, 0x204 before, is 0x200 after. The host still has \<open>rom_loaded\<close> set and the label
  of the old program, over the new, empty interpreter, and the next pass of the loop
  ends in an exception (with the interpreter of the specification, \<open>IllegalOpcode\<close> for
  the instruction 0000).
\<close>

theorem failed_load_discards_running_interpreter:
  "emulation_loop demo_core ([] # []) (load_rom demo_core ''demo.ch8'' (EmulatorGUI demo_core)) =
     (Continue, demo_gui) \<and>
   Chip8_load_rom demo_core ''big.ch8'' (Chip8_init demo_core) =
     Inl (RomTooLarge, Chip8_init demo_core) \<and>
   load_rom demo_core ''big.ch8'' demo_gui =
     demo_gui\<lparr>chip8 := Chip8_new [],
       dialogs := [ShowError ''Error'' ''Failed to load ROM: '' RomTooLarge]\<rparr> \<and>
   pc (chip8 demo_gui) = 0x204 \<and>
   pc (chip8 (load_rom demo_core ''big.ch8'' demo_gui)) = 0x200 \<and>
   chip8 (load_rom demo_core ''big.ch8'' demo_gui) \<noteq> chip8 demo_gui \<and>
   rom_loaded (load_rom demo_core ''big.ch8'' demo_gui) \<and>
   status_label (load_rom demo_core ''big.ch8'' demo_gui) = (''Running: demo.ch8'', ''green'') \<and>
   emulation_loop_pass demo_core [] (load_rom demo_core ''big.ch8'' demo_gui) =
     (Raised IllegalOpcode, load_rom demo_core ''big.ch8'' demo_gui)"
proof -
  let ?g = "demo_gui\<lparr>chip8 := Chip8_new [],
       dialogs := [ShowError ''Error'' ''Failed to load ROM: '' RomTooLarge]\<rparr>"
  have n: "''big.ch8'' \<noteq> []" by simp
  have f: "Chip8_load_rom demo_core ''big.ch8'' (Chip8_init demo_core) =
      Inl (RomTooLarge, Chip8_init demo_core)"
    by (rule load_big)
  have init: "Chip8_init demo_core = Chip8_new []" by (simp add: demo_core_sel)
  from failed_load_any_core [OF n f, of demo_gui] have l: "load_rom demo_core ''big.ch8'' demo_gui = ?g"
    by (simp add: init demo_gui_fields)
  have a: "pc (chip8 demo_gui) = 0x204"
    by (simp add: demo_gui_fields demo_looping_fields)
  have b: "pc (chip8 ?g) = 0x200" by (simp add: Chip8_new_def)
  from a b have d: "chip8 ?g \<noteq> chip8 demo_gui" by auto
  have r: "running ?g" "rom_loaded ?g" "\<not> paused ?g" "chip8 ?g = Chip8_new []"
    by (simp_all add: demo_gui_fields)
  have st: "status_label ?g = (''Running: demo.ch8'', ''green'')"
    by (simp add: demo_gui_def demo_start_def)
  have same: "?g\<lparr>chip8 := Chip8_new []\<rparr> = ?g" by simp
  have "Chip8_emulate_cycle demo_core 0 (Chip8_new []) = Inl (IllegalOpcode, Chip8_new [])"
    by (simp add: demo_core_sel blank_step)
  then have "run_cycles demo_core 0 10 (Chip8_new []) = Inl (IllegalOpcode, Chip8_new [])"
    by (simp add: run_cycles_numeral)
  then have p: "emulation_loop_pass demo_core [] ?g = (Raised IllegalOpcode, ?g)"
    using r same by (simp add: emulation_loop_pass_def)
  from demo_reached f l a b d r(2) st p show ?thesis by (simp only: simp_thms)
qed

text \<open>
  Claim C5. With the interpreter of the specification, a load that succeeds leaves the
  host with the loader's result on a newly constructed object: the stack empty, the 16
  registers 0, I = 0, PC = 0x200, both timers 0, the 2048 pixels 0 and the draw flag set,
  whatever the interpreter was before; the program's bytes are at 0x200 and up, the
  reserved area is the initial one and the rest of the memory is 0.
\<close>

theorem load_rom_resets_then_copies:
  assumes "filename \<noteq> []" and "fs filename = Some rom" and "length rom \<le> 3584"
  shows "\<exists>c. load rom (Chip8_new font) = Inr c \<and>
           chip8 (load_rom (spec_core font fs kb rnd) filename g) = c \<and>
           rom_loaded (load_rom (spec_core font fs kb rnd) filename g) \<and>
           stack c = [] \<and> V c = replicate 16 0 \<and> I c = 0 \<and> pc c = 0x200 \<and>
           delay_timer c = 0 \<and> sound_timer c = 0 \<and>
           display c = replicate 2048 0 \<and> draw_flag c \<and>
           length (memory c) = 4096 \<and>
           (\<forall>i<length rom. memory c ! (0x200 + i) = rom ! i) \<and>
           (\<forall>a<0x200. memory c ! a = memory (Chip8_new font) ! a) \<and>
           (\<forall>a. 0x200 + length rom \<le> a \<and> a < 4096 \<longrightarrow> memory c ! a = 0)"
proof -
  from load_ok [OF assms(3) Chip8_new_memory_length, of font] obtain c where
    c: "load rom (Chip8_new font) = Inr c"
    and rest: "stack c = [] \<and> V c = replicate 16 0 \<and> I c = 0 \<and> pc c = 0x200 \<and>
           delay_timer c = 0 \<and> sound_timer c = 0 \<and>
           display c = replicate 2048 0 \<and> draw_flag c \<and>
           length (memory c) = 4096 \<and>
           (\<forall>i<length rom. memory c ! (0x200 + i) = rom ! i) \<and>
           (\<forall>a<0x200. memory c ! a = memory (Chip8_new font) ! a) \<and>
           (\<forall>a. 0x200 + length rom \<le> a \<and> a < 4096 \<longrightarrow> memory c ! a = 0)"
    by blast
  have "chip8 (load_rom (spec_core font fs kb rnd) filename g) = c \<and>
        rom_loaded (load_rom (spec_core font fs kb rnd) filename g)"
    using assms(1,2) c by (simp add: load_rom_def spec_core_def)
  with c rest show ?thesis by blast
qed

theorem load_rom_resets_then_copies_witness:
  "''demo.ch8'' \<noteq> [] \<and> demo_fs ''demo.ch8'' = Some demo_rom \<and> length demo_rom \<le> 3584 \<and>
   pc (chip8 demo_gui) = 0x204 \<and> delay_timer (chip8 demo_gui) = 5 \<and>
   (\<exists>c. load demo_rom (Chip8_new []) = Inr c \<and>
      chip8 (load_rom demo_core ''demo.ch8'' demo_gui) = c \<and>
      pc c = 0x200 \<and> delay_timer c = 0 \<and> V c = replicate 16 0 \<and> stack c = [] \<and>
      display c = replicate 2048 0 \<and> draw_flag c \<and>
      memory c ! (0x200 + 0) = 0x60 \<and> memory c ! (0x200 + 5) = 0x04)"
proof -
  have n: "''demo.ch8'' \<noteq> []" by simp
  have f: "demo_fs ''demo.ch8'' = Some demo_rom" by (simp add: demo_fs_def)
  have l: "length demo_rom \<le> 3584" by (simp add: demo_rom_def)
  from load_rom_resets_then_copies [where filename = "''demo.ch8''" and fs = demo_fs
      and rom = demo_rom and font = "[]" and kb = "\<lambda>i. []" and rnd = "\<lambda>j. 0" and g = demo_gui, OF n f l]
  obtain c where c: "load demo_rom (Chip8_new []) = Inr c"
    "chip8 (load_rom demo_core ''demo.ch8'' demo_gui) = c"
    "pc c = 0x200" "delay_timer c = 0" "V c = replicate 16 0" "stack c = []"
    "display c = replicate 2048 0" "draw_flag c"
    and copy: "\<forall>i<length demo_rom. memory c ! (0x200 + i) = demo_rom ! i"
    unfolding demo_core_def by blast
  have "memory c ! (0x200 + 0) = 0x60"
    using copy [rule_format, of 0] by (simp add: demo_rom_def)
  moreover have "memory c ! (0x200 + 5) = 0x04"
    using copy [rule_format, of 5] by (simp add: demo_rom_def)
  moreover have "pc (chip8 demo_gui) = 0x204 \<and> delay_timer (chip8 demo_gui) = 5"
    by (simp add: demo_gui_fields demo_looping_fields)
  ultimately show ?thesis using n f l c by blast
qed

subsection \<open>Errors\<close>

text \<open>
  Claim C2 at a failing input. \<open>load_rom\<close> catches what the load raises and shows an error
  box; \<open>emulation_loop\<close> has no handler. With \<open>ret.ch8\<close> loaded the first cycle raises
  (a return with an empty stack): the pass ends in that exception, so does the loop, with
  further passes never run, and no dialog has been shown.
\<close>

theorem step_error_ends_loop_silently:
  "load_rom demo_core ''ret.ch8'' (EmulatorGUI demo_core) = ret_start \<and>
   running ret_start \<and> rom_loaded ret_start \<and> \<not> paused ret_start \<and>
   Chip8_emulate_cycle demo_core 0 (chip8 ret_start) = Inl (StackUnderflow, chip8 ret_start) \<and>
   emulation_loop_pass demo_core [] ret_start = (Raised StackUnderflow, ret_start) \<and>
   emulation_loop demo_core ([] # [] # [] # []) ret_start = (Raised StackUnderflow, ret_start) \<and>
   dialogs ret_start = []"
proof -
  have f: "running ret_start" "rom_loaded ret_start" "\<not> paused ret_start"
    "chip8 ret_start = ret_loaded" "dialogs ret_start = []"
    by (simp_all add: ret_start_def EmulatorGUI_def)
  have same: "ret_start\<lparr>chip8 := ret_loaded\<rparr> = ret_start"
    by (simp add: ret_start_def)
  have cyc: "Chip8_emulate_cycle demo_core 0 ret_loaded = Inl (StackUnderflow, ret_loaded)"
    by (simp add: demo_core_sel ret_step)
  then have "run_cycles demo_core 0 10 ret_loaded = Inl (StackUnderflow, ret_loaded)"
    by (simp add: run_cycles_numeral)
  then have pass: "emulation_loop_pass demo_core [] ret_start = (Raised StackUnderflow, ret_start)"
    by (simp add: emulation_loop_pass_def f same)
  then have "emulation_loop demo_core ([] # [] # [] # []) ret_start = (Raised StackUnderflow, ret_start)"
    by simp
  with ret_load_rom f cyc pass show ?thesis by simp
qed

subsection \<open>The emulation loop\<close>

text \<open>
  Claim C3, as amended. The host calls no timer tick: \<open>self.clock.tick(60)\<close> is the frame
  limiter of Pygame. In every pass of the running branch that completes, the two timers
  are what the ten calls of \<open>emulate_cycle\<close> left; the host's own steps change no timer.
\<close>

theorem timers_left_to_the_cycles:
  assumes "running g" "rom_loaded g" "\<not> paused g"
    and "emulation_loop_pass K evs g = (Continue, g')"
  shows "\<exists>g1 c. handle_events K 0 evs g = Inr (False, g1) \<and>
           run_cycles K 0 10 (chip8 g1) = Inr c \<and>
           delay_timer (chip8 g') = delay_timer c \<and>
           sound_timer (chip8 g') = sound_timer c"
proof -
  from running_pass_cases [OF assms(1-3), of K evs] assms(4)
  obtain g1 c where ev: "handle_events K 0 evs g = Inr (False, g1)"
    and cyc: "run_cycles K 0 10 (chip8 g1) = Inr c"
    and pass: "(Continue, g') =
        (case update_display (g\<lparr>chip8 := c\<rparr>) of
           Inl (e, g') \<Rightarrow> (Raised e, g') | Inr g' \<Rightarrow> (Continue, g'))"
    by auto
  from pass have "update_display (g\<lparr>chip8 := c\<rparr>) = Inr g'"
    by (auto split: sum.splits)
  then have "delay_timer (chip8 g') = delay_timer c \<and> sound_timer (chip8 g') = sound_timer c"
    by (auto simp: update_display_Inr split: if_splits)
  with ev cyc show ?thesis by blast
qed

theorem timers_left_to_the_cycles_witness:
  "running demo_gui \<and> rom_loaded demo_gui \<and> \<not> paused demo_gui \<and>
   emulation_loop_pass demo_core [] demo_gui = (Continue, demo_gui) \<and>
   (\<exists>g1 c. handle_events demo_core 0 [] demo_gui = Inr (False, g1) \<and>
      run_cycles demo_core 0 10 (chip8 g1) = Inr c \<and>
      delay_timer (chip8 demo_gui) = delay_timer c \<and> delay_timer c = 5)"
proof -
  note h = demo_gui_fields(1-3)
  from timers_left_to_the_cycles [OF h demo_pass_loop]
  obtain g1 c where ev: "handle_events demo_core 0 [] demo_gui = Inr (False, g1)"
    and cyc: "run_cycles demo_core 0 10 (chip8 g1) = Inr c"
    and t: "delay_timer (chip8 demo_gui) = delay_timer c"
    by blast
  have "delay_timer (chip8 demo_gui) = 5"
    by (simp add: demo_gui_fields demo_looping_fields)
  with t have "delay_timer c = 5" by simp
  with h demo_pass_loop ev cyc t show ?thesis by blast
qed

text \<open>
  Claim C3 as stated, that each pass advances the timers by one tick, fails on the running
  demo with the interpreter of the specification, whose cycle does not tick: the delay
  timer is 5 before the pass and 5 after it, where one tick would leave 4.
\<close>

theorem timers_not_ticked_counterexample:
  "emulation_loop demo_core ([] # []) (load_rom demo_core ''demo.ch8'' (EmulatorGUI demo_core)) =
     (Continue, demo_gui) \<and>
   running demo_gui \<and> rom_loaded demo_gui \<and> \<not> paused demo_gui \<and>
   emulation_loop_pass demo_core [] demo_gui = (Continue, demo_gui) \<and>
   delay_timer (chip8 demo_gui) = 5 \<and>
   delay_timer (tick_timers (chip8 demo_gui)) = 4 \<and>
   delay_timer (chip8 (snd (emulation_loop_pass demo_core [] demo_gui))) = 5"
proof -
  have "running demo_gui \<and> rom_loaded demo_gui \<and> \<not> paused demo_gui \<and>
   emulation_loop_pass demo_core [] demo_gui = (Continue, demo_gui) \<and>
   delay_timer (chip8 demo_gui) = 5 \<and>
   delay_timer (tick_timers (chip8 demo_gui)) = 4 \<and>
   delay_timer (chip8 (snd (emulation_loop_pass demo_core [] demo_gui))) = 5"
    by (simp add: demo_pass_loop demo_gui_fields demo_looping_fields tick_timers_def)
  with demo_reached show ?thesis by blast
qed

text \<open>
  Claim C4. A pass with a ROM loaded and not paused reaches the display update only after
  exactly ten calls of \<open>emulate_cycle\<close>, numbered 0 to 9, each on the state the one before
  left, the first on the state the input handling left. Only a pass in which these ten
  calls do not all happen and return (a QUIT event, or an exception of \<open>handle_input\<close> or
  of a cycle) ends otherwise, and it ends without touching the screen or the window.
\<close>

theorem ten_cycles_before_display_update:
  assumes "running g" "rom_loaded g" "\<not> paused g"
  shows "(\<exists>g1 cs. handle_events K 0 evs g = Inr (False, g1) \<and>
            length cs = 11 \<and> cs ! 0 = chip8 g1 \<and>
            (\<forall>j<10. Chip8_emulate_cycle K j (cs ! j) = Inr (cs ! Suc j)) \<and>
            emulation_loop_pass K evs g =
              (case update_display (g\<lparr>chip8 := cs ! 10\<rparr>) of
                 Inl (e, g') \<Rightarrow> (Raised e, g') | Inr g' \<Rightarrow> (Continue, g')))
       \<or> (fst (emulation_loop_pass K evs g) \<noteq> Continue \<and>
          screen (snd (emulation_loop_pass K evs g)) = screen g \<and>
          window (snd (emulation_loop_pass K evs g)) = window g \<and>
          \<not> (\<exists>g1 cs. handle_events K 0 evs g = Inr (False, g1) \<and>
                length cs = 11 \<and> cs ! 0 = chip8 g1 \<and>
                (\<forall>j<10. Chip8_emulate_cycle K j (cs ! j) = Inr (cs ! Suc j))))"
proof -
  from running_pass_cases [OF assms, of K evs] show ?thesis
  proof
    assume "\<exists>g1 c. handle_events K 0 evs g = Inr (False, g1) \<and> g1\<lparr>chip8 := c\<rparr> = g\<lparr>chip8 := c\<rparr> \<and>
        run_cycles K 0 10 (chip8 g1) = Inr c \<and>
        emulation_loop_pass K evs g =
          (case update_display (g\<lparr>chip8 := c\<rparr>) of
             Inl (e, g') \<Rightarrow> (Raised e, g') | Inr g' \<Rightarrow> (Continue, g'))"
    then obtain g1 c where ev: "handle_events K 0 evs g = Inr (False, g1)"
      and cyc: "run_cycles K 0 10 (chip8 g1) = Inr c"
      and pass: "emulation_loop_pass K evs g =
          (case update_display (g\<lparr>chip8 := c\<rparr>) of
             Inl (e, g') \<Rightarrow> (Raised e, g') | Inr g' \<Rightarrow> (Continue, g'))"
      by blast
    from run_cycles_chain [OF cyc] obtain cs where
      cs: "length cs = 11" "cs ! 0 = chip8 g1" "cs ! 10 = c"
          "\<forall>i<10. Chip8_emulate_cycle K i (cs ! i) = Inr (cs ! Suc i)"
      by auto
    with ev pass show ?thesis by blast
  next
    assume esc: "fst (emulation_loop_pass K evs g) \<noteq> Continue \<and>
          screen (snd (emulation_loop_pass K evs g)) = screen g \<and>
          window (snd (emulation_loop_pass K evs g)) = window g \<and>
          dialogs (snd (emulation_loop_pass K evs g)) = dialogs g \<and>
          (\<forall>g1 c. handle_events K 0 evs g = Inr (False, g1) \<longrightarrow>
             run_cycles K 0 10 (chip8 g1) \<noteq> Inr c)"
    have "\<not> (\<exists>g1 cs. handle_events K 0 evs g = Inr (False, g1) \<and>
                length cs = 11 \<and> cs ! 0 = chip8 g1 \<and>
                (\<forall>j<10. Chip8_emulate_cycle K j (cs ! j) = Inr (cs ! Suc j)))"
    proof
      assume "\<exists>g1 cs. handle_events K 0 evs g = Inr (False, g1) \<and>
                length cs = 11 \<and> cs ! 0 = chip8 g1 \<and>
                (\<forall>j<10. Chip8_emulate_cycle K j (cs ! j) = Inr (cs ! Suc j))"
      then obtain g1 cs where ev: "handle_events K 0 evs g = Inr (False, g1)"
        and len: "length cs = 11" and hd: "cs ! 0 = chip8 g1"
        and chain: "\<forall>j<10. Chip8_emulate_cycle K j (cs ! j) = Inr (cs ! Suc j)"
        by blast
      have "run_cycles K 0 10 (cs ! 0) = Inr (cs ! 10)"
        using len chain by (intro chain_run_cycles) simp_all
      with hd have "run_cycles K 0 10 (chip8 g1) = Inr (cs ! 10)" by simp
      with esc ev show False by blast
    qed
    with esc show ?thesis by blast
  qed
qed

theorem ten_cycles_before_display_update_witness:
  "running demo_start \<and> rom_loaded demo_start \<and> \<not> paused demo_start \<and>
   emulation_loop_pass demo_core [] demo_start = (Continue, demo_gui) \<and>
   (\<exists>cs. length cs = 11 \<and> cs ! 0 = demo_loaded \<and> cs ! 10 = demo_looping \<and>
      Chip8_emulate_cycle demo_core 0 (cs ! 0) = Inr (cs ! 1) \<and>
      Chip8_emulate_cycle demo_core 9 (cs ! 9) = Inr (cs ! 10) \<and>
      update_display (demo_start\<lparr>chip8 := cs ! 10\<rparr>) = Inr demo_gui)"
proof -
  note h = demo_start_fields(1-3)
  have ev: "handle_events demo_core 0 [] demo_start = Inr (False, demo_start)" by simp
  from ten_cycles_before_display_update [OF h, of demo_core "[]"] demo_pass_first ev
  obtain cs where cs: "length cs = 11" "cs ! 0 = chip8 demo_start"
    "\<forall>j<10. Chip8_emulate_cycle demo_core j (cs ! j) = Inr (cs ! Suc j)"
    "(Continue, demo_gui) =
       (case update_display (demo_start\<lparr>chip8 := cs ! 10\<rparr>) of
          Inl (e, g') \<Rightarrow> (Raised e, g') | Inr g' \<Rightarrow> (Continue, g'))"
    by auto
  have "run_cycles demo_core 0 10 (cs ! 0) = Inr (cs ! 10)"
    using cs(1,3) by (intro chain_run_cycles) simp_all
  with cs(2) demo_cycles_first have last: "cs ! 10 = demo_looping"
    by (simp add: demo_start_fields)
  have upd: "update_display (demo_start\<lparr>chip8 := cs ! 10\<rparr>) = Inr demo_gui"
    using cs(4) by (auto split: sum.splits)
  have c0: "Chip8_emulate_cycle demo_core 0 (cs ! 0) = Inr (cs ! 1)"
    using cs(3) [rule_format, of 0] by simp
  have c9: "Chip8_emulate_cycle demo_core 9 (cs ! 9) = Inr (cs ! 10)"
    using cs(3) [rule_format, of 9] by simp
  from h demo_pass_first cs(1,2) last upd c0 c9 show ?thesis
    by (auto simp: demo_start_fields)
qed

text \<open>
  Claim C6. In a pass of the running branch that reaches the display update, with \<open>c\<close> the
  interpreter after the ten cycles: when the draw flag of \<open>c\<close> is set, the screen is
  repainted from the framebuffer of \<open>c\<close>, block by block, the window shows it and the flag
  is cleared (a framebuffer shorter than 2048 makes the repaint raise IndexError
  instead, which the interpreter of the specification never has:
  \<open>spec_pass_repaint_never_raises\<close>); when the flag is not set, nothing but the interpreter changes: screen and
  window are left as they were. A pass that ends before the update leaves both untouched.
\<close>

theorem display_repainted_iff_draw_flag:
  assumes "running g" "rom_loaded g" "\<not> paused g"
  shows "(\<exists>g1 c. handle_events K 0 evs g = Inr (False, g1) \<and>
            run_cycles K 0 10 (chip8 g1) = Inr c \<and>
            (if draw_flag c then
               (if 2048 \<le> length (display c) then
                  fst (emulation_loop_pass K evs g) = Continue \<and>
                  chip8 (snd (emulation_loop_pass K evs g)) = c\<lparr>draw_flag := False\<rparr> \<and>
                  window (snd (emulation_loop_pass K evs g)) =
                    screen (snd (emulation_loop_pass K evs g)) \<and>
                  (\<forall>x<64. \<forall>y<32. \<forall>dx<10. \<forall>dy<10.
                     screen (snd (emulation_loop_pass K evs g)) (10 * x + dx, 10 * y + dy) =
                       (if display c ! (y * 64 + x) = 1 then white else black))
                else fst (emulation_loop_pass K evs g) = Raised IndexError \<and>
                  chip8 (snd (emulation_loop_pass K evs g)) = c \<and>
                  window (snd (emulation_loop_pass K evs g)) = window g)
             else emulation_loop_pass K evs g = (Continue, g\<lparr>chip8 := c\<rparr>)))
       \<or> (fst (emulation_loop_pass K evs g) \<noteq> Continue \<and>
          screen (snd (emulation_loop_pass K evs g)) = screen g \<and>
          window (snd (emulation_loop_pass K evs g)) = window g \<and>
          (\<forall>g1 c. handle_events K 0 evs g = Inr (False, g1) \<longrightarrow>
             run_cycles K 0 10 (chip8 g1) \<noteq> Inr c))"
proof -
  from running_pass_cases [OF assms, of K evs] show ?thesis
  proof
    assume "\<exists>g1 c. handle_events K 0 evs g = Inr (False, g1) \<and> g1\<lparr>chip8 := c\<rparr> = g\<lparr>chip8 := c\<rparr> \<and>
        run_cycles K 0 10 (chip8 g1) = Inr c \<and>
        emulation_loop_pass K evs g =
          (case update_display (g\<lparr>chip8 := c\<rparr>) of
             Inl (e, g') \<Rightarrow> (Raised e, g') | Inr g' \<Rightarrow> (Continue, g'))"
    then obtain g1 c where ev: "handle_events K 0 evs g = Inr (False, g1)"
      and cyc: "run_cycles K 0 10 (chip8 g1) = Inr c"
      and pass: "emulation_loop_pass K evs g =
          (case update_display (g\<lparr>chip8 := c\<rparr>) of
             Inl (e, g') \<Rightarrow> (Raised e, g') | Inr g' \<Rightarrow> (Continue, g'))"
      by blast
    let ?g = "g\<lparr>chip8 := c\<rparr>"
    have "if draw_flag c then
               (if 2048 \<le> length (display c) then
                  fst (emulation_loop_pass K evs g) = Continue \<and>
                  chip8 (snd (emulation_loop_pass K evs g)) = c\<lparr>draw_flag := False\<rparr> \<and>
                  window (snd (emulation_loop_pass K evs g)) =
                    screen (snd (emulation_loop_pass K evs g)) \<and>
                  (\<forall>x<64. \<forall>y<32. \<forall>dx<10. \<forall>dy<10.
                     screen (snd (emulation_loop_pass K evs g)) (10 * x + dx, 10 * y + dy) =
                       (if display c ! (y * 64 + x) = 1 then white else black))
                else fst (emulation_loop_pass K evs g) = Raised IndexError \<and>
                  chip8 (snd (emulation_loop_pass K evs g)) = c \<and>
                  window (snd (emulation_loop_pass K evs g)) = window g)
             else emulation_loop_pass K evs g = (Continue, g\<lparr>chip8 := c\<rparr>)"
    proof (cases "draw_flag c")
      case False
      then have "update_display ?g = Inr ?g" by (simp add: update_display_Inr)
      with pass False show ?thesis by simp
    next
      case flag: True
      show ?thesis
      proof (cases "2048 \<le> length (display c)")
        case True
        let ?S = "paint (display c) {0..<32} (\<lambda>p. black)"
        have "update_display ?g = Inr (?g\<lparr>screen := ?S, window := ?S, chip8 := c\<lparr>draw_flag := False\<rparr>\<rparr>)"
          using flag True by (simp add: update_display_Inr)
        with pass flag True show ?thesis by (simp add: paint_block)
      next
        case False
        have "\<forall>g'. update_display ?g \<noteq> Inr g'"
          using flag False by (simp add: update_display_Inr)
        then obtain e g' where inl: "update_display ?g = Inl (e, g')"
          by (cases "update_display ?g") auto
        from update_display_Inl [OF inl] update_display_Inl_IndexError [OF inl] inl pass flag False
        show ?thesis by simp
      qed
    qed
    with ev cyc show ?thesis by blast
  next
    assume "fst (emulation_loop_pass K evs g) \<noteq> Continue \<and>
          screen (snd (emulation_loop_pass K evs g)) = screen g \<and>
          window (snd (emulation_loop_pass K evs g)) = window g \<and>
          dialogs (snd (emulation_loop_pass K evs g)) = dialogs g \<and>
          (\<forall>g1 c. handle_events K 0 evs g = Inr (False, g1) \<longrightarrow>
             run_cycles K 0 10 (chip8 g1) \<noteq> Inr c)"
    then show ?thesis by blast
  qed
qed

theorem display_repainted_iff_draw_flag_witness:
  "running demo_start \<and> rom_loaded demo_start \<and> \<not> paused demo_start \<and>
   run_cycles demo_core 0 10 (chip8 demo_start) = Inr demo_looping \<and> draw_flag demo_looping \<and>
   fst (emulation_loop_pass demo_core [] demo_start) = Continue \<and>
   \<not> draw_flag (chip8 (snd (emulation_loop_pass demo_core [] demo_start))) \<and>
   window (snd (emulation_loop_pass demo_core [] demo_start)) =
     screen (snd (emulation_loop_pass demo_core [] demo_start)) \<and>
   screen (snd (emulation_loop_pass demo_core [] demo_start)) (10 * 2 + 5, 10 * 1 + 3) = black \<and>
   running demo_gui \<and> rom_loaded demo_gui \<and> \<not> paused demo_gui \<and>
   run_cycles demo_core 0 10 (chip8 demo_gui) = Inr (chip8 demo_gui) \<and>
   \<not> draw_flag (chip8 demo_gui) \<and>
   emulation_loop_pass demo_core [] demo_gui = (Continue, demo_gui)"
proof -
  note h = demo_start_fields(1-3)
  note h' = demo_gui_fields(1-3)
  have ev: "handle_events demo_core 0 [] demo_start = Inr (False, demo_start)"
    "handle_events demo_core 0 [] demo_gui = Inr (False, demo_gui)" by simp_all
  have cyc: "run_cycles demo_core 0 10 (chip8 demo_start) = Inr demo_looping"
    "run_cycles demo_core 0 10 (chip8 demo_gui) = Inr (chip8 demo_gui)"
    using demo_cycles_first demo_cycles_loop by (simp_all add: demo_start_fields demo_gui_fields)
  have same: "demo_gui\<lparr>chip8 := chip8 demo_gui\<rparr> = demo_gui" by simp
  from display_repainted_iff_draw_flag [OF h, of demo_core "[]"] ev(1) cyc(1)
  have first: "fst (emulation_loop_pass demo_core [] demo_start) = Continue \<and>
      chip8 (snd (emulation_loop_pass demo_core [] demo_start)) = demo_looping\<lparr>draw_flag := False\<rparr> \<and>
      window (snd (emulation_loop_pass demo_core [] demo_start)) =
        screen (snd (emulation_loop_pass demo_core [] demo_start)) \<and>
      (\<forall>x<64. \<forall>y<32. \<forall>dx<10. \<forall>dy<10.
         screen (snd (emulation_loop_pass demo_core [] demo_start)) (10 * x + dx, 10 * y + dy) =
           (if display demo_looping ! (y * 64 + x) = 1 then white else black))"
    by (auto simp: demo_looping_fields)
  then have blocks: "\<forall>x<64. \<forall>y<32. \<forall>dx<10. \<forall>dy<10.
         screen (snd (emulation_loop_pass demo_core [] demo_start)) (10 * x + dx, 10 * y + dy) =
           (if display demo_looping ! (y * 64 + x) = 1 then white else black)"
    by blast
  have px: "screen (snd (emulation_loop_pass demo_core [] demo_start)) (10 * 2 + 5, 10 * 1 + 3) =
      (if display demo_looping ! (1 * 64 + 2) = 1 then white else black)"
    using blocks [rule_format, of 2 1 5 3] by simp
  from display_repainted_iff_draw_flag [OF h', of demo_core "[]"] ev(2) cyc(2)
  have second: "emulation_loop_pass demo_core [] demo_gui = (Continue, demo_gui)"
    by (auto simp: demo_gui_fields same)
  from h h' cyc first px second show ?thesis
    by (simp add: demo_looping_fields demo_gui_fields)
qed

text \<open>
  Claim C7. On a framebuffer of at least 2048 entries \<open>draw_display\<close> returns, and for
  every \<open>x < 64\<close> and \<open>y < 32\<close> each pixel of the 10 x 10 block with top-left corner
  \<open>(10 x, 10 y)\<close> is white when entry \<open>y * 64 + x\<close> is 1 and black otherwise; the
  interpreter is only read.
\<close>

theorem draw_display_row_major:
  assumes "2048 \<le> length (display (chip8 g))"
  shows "\<exists>g'. draw_display g = Inr g' \<and> chip8 g' = chip8 g \<and>
           (\<forall>x<64. \<forall>y<32. \<forall>dx<10. \<forall>dy<10.
              screen g' (10 * x + dx, 10 * y + dy) =
                (if display (chip8 g) ! (y * 64 + x) = 1 then white else black))"
proof -
  let ?g' = "g\<lparr>screen := paint (display (chip8 g)) {0..<32} (screen g)\<rparr>"
  have "draw_display g = Inr ?g'"
    using assms by (simp add: draw_display_iff)
  moreover have "chip8 ?g' = chip8 g" by simp
  moreover have "\<forall>x<64. \<forall>y<32. \<forall>dx<10. \<forall>dy<10.
      screen ?g' (10 * x + dx, 10 * y + dy) =
        (if display (chip8 g) ! (y * 64 + x) = 1 then white else black)"
    by (simp add: paint_block)
  ultimately show ?thesis by blast
qed

theorem draw_display_row_major_witness:
  "2048 \<le> length (display (chip8 lit_gui)) \<and>
   display (chip8 lit_gui) ! (1 * 64 + 2) = 1 \<and> display (chip8 lit_gui) ! (1 * 64 + 3) = 0 \<and>
   (\<exists>g'. draw_display lit_gui = Inr g' \<and>
      screen g' (10 * 2 + 5, 10 * 1 + 3) = white \<and> screen g' (10 * 3 + 5, 10 * 1 + 3) = black)"
proof -
  have len: "2048 \<le> length (display (chip8 lit_gui))"
    by (simp add: lit_gui_def)
  have px: "display (chip8 lit_gui) ! (1 * 64 + 2) = 1" "display (chip8 lit_gui) ! (1 * 64 + 3) = 0"
    by (simp_all add: lit_gui_def)
  from draw_display_row_major [OF len] obtain g' where
    g': "draw_display lit_gui = Inr g'"
    and blocks: "\<forall>x<64. \<forall>y<32. \<forall>dx<10. \<forall>dy<10.
      screen g' (10 * x + dx, 10 * y + dy) =
        (if display (chip8 lit_gui) ! (y * 64 + x) = 1 then white else black)"
    by blast
  have "screen g' (10 * 2 + 5, 10 * 1 + 3) = white"
    using blocks [rule_format, of 2 1 5 3] px by simp
  moreover have "screen g' (10 * 3 + 5, 10 * 1 + 3) = black"
    using blocks [rule_format, of 3 1 5 3] px by simp
  ultimately show ?thesis using len px g' by blast
qed

text \<open>
  Claim C9. When the emulator is paused or no ROM is loaded, a pass leaves the interpreter
  as it is, never ends in an exception, and is the same whatever the methods of the
  interpreter do: none of them is called.
\<close>

theorem idle_pass_leaves_interpreter:
  assumes "paused g \<or> \<not> rom_loaded g"
  shows "chip8 (snd (emulation_loop_pass K evs g)) = chip8 g \<and>
         (\<forall>e. fst (emulation_loop_pass K evs g) \<noteq> Raised e) \<and>
         emulation_loop_pass K evs g = emulation_loop_pass K' evs g"
  using assms by (auto simp: emulation_loop_pass_def quit_emulator_def)

theorem idle_pass_leaves_interpreter_witness:
  "\<not> rom_loaded (EmulatorGUI demo_core) \<and> paused (toggle_pause demo_gui) \<and>
   chip8 (snd (emulation_loop_pass demo_core [OTHER] (EmulatorGUI demo_core))) = Chip8_new [] \<and>
   chip8 (snd (emulation_loop_pass demo_core [OTHER, QUIT] (toggle_pause demo_gui))) = chip8 demo_gui"
proof -
  have a: "\<not> rom_loaded (EmulatorGUI demo_core)" by (simp add: EmulatorGUI_def)
  have b: "paused (toggle_pause demo_gui)" by (simp add: toggle_pause_def demo_gui_fields)
  have "chip8 (EmulatorGUI demo_core) = Chip8_new []" by (simp add: EmulatorGUI_def demo_core_sel)
  moreover have "chip8 (toggle_pause demo_gui) = chip8 demo_gui" by (simp add: toggle_pause_def)
  ultimately show ?thesis
    using a b idle_pass_leaves_interpreter [of "EmulatorGUI demo_core" demo_core "[OTHER]"]
      idle_pass_leaves_interpreter [of "toggle_pause demo_gui" demo_core "[OTHER, QUIT]"]
    by simp
qed

subsection \<open>The menu and the buttons\<close>

text \<open>
  Claim C8, as amended. Every command other than Load ROM and Reset leaves the whole
  interpreter as it is. Reset leaves the memory and the key table as they are, and
  changes nothing at all when no ROM is loaded. \<open>draw_display\<close> only reads the
  interpreter, and the display update changes nothing of it but the draw flag.
\<close>

theorem host_commands_frame:
  "(cmd \<noteq> Reset \<and> (\<forall>f. cmd \<noteq> LoadRom f) \<longrightarrow> chip8 (invoke K cmd g) = chip8 g) \<and>
   memory (chip8 (invoke K Reset g)) = memory (chip8 g) \<and>
   keys (chip8 (invoke K Reset g)) = keys (chip8 g) \<and>
   (\<not> rom_loaded g \<longrightarrow> invoke K Reset g = g) \<and>
   (\<forall>g'. draw_display g = Inr g' \<longrightarrow> chip8 g' = chip8 g) \<and>
   (\<forall>g'. update_display g = Inr g' \<longrightarrow> chip8 g' = (chip8 g)\<lparr>draw_flag := False\<rparr>)"
proof -
  have "cmd \<noteq> Reset \<and> (\<forall>f. cmd \<noteq> LoadRom f) \<longrightarrow> chip8 (invoke K cmd g) = chip8 g"
    by (cases cmd) (simp_all add: quit_emulator_def show_controls_def show_about_def toggle_pause_def)
  moreover have "memory (chip8 (invoke K Reset g)) = memory (chip8 g)"
    "keys (chip8 (invoke K Reset g)) = keys (chip8 g)" "\<not> rom_loaded g \<longrightarrow> invoke K Reset g = g"
    by (simp_all add: reset_def)
  moreover have "\<forall>g'. draw_display g = Inr g' \<longrightarrow> chip8 g' = chip8 g"
    by (simp add: draw_display_iff)
  moreover have "\<forall>g'. update_display g = Inr g' \<longrightarrow> chip8 g' = (chip8 g)\<lparr>draw_flag := False\<rparr>"
    by (simp add: update_display_Inr clear_draw_flag)
  ultimately show ?thesis by blast
qed

theorem host_commands_frame_witness:
  "PauseResume \<noteq> Reset \<and> (\<forall>f. PauseResume \<noteq> LoadRom f) \<and>
   paused (invoke demo_core PauseResume demo_gui) \<and>
   chip8 (invoke demo_core PauseResume demo_gui) = chip8 demo_gui \<and>
   memory (chip8 (invoke demo_core Reset demo_gui)) = memory (chip8 demo_gui) \<and>
   update_display demo_start = Inr (demo_start\<lparr>screen := screen demo_gui, window := window demo_gui,
       chip8 := demo_loaded\<lparr>draw_flag := False\<rparr>\<rparr>) \<and>
   chip8 (demo_start\<lparr>screen := screen demo_gui, window := window demo_gui,
       chip8 := demo_loaded\<lparr>draw_flag := False\<rparr>\<rparr>) = (chip8 demo_start)\<lparr>draw_flag := False\<rparr>"
proof -
  have u: "update_display demo_start = Inr (demo_start\<lparr>screen := screen demo_gui, window := window demo_gui,
       chip8 := demo_loaded\<lparr>draw_flag := False\<rparr>\<rparr>)"
    by (simp add: update_display_Inr demo_start_fields demo_loaded_fields demo_gui_def)
  have p: "paused (invoke demo_core PauseResume demo_gui)"
    by (simp add: toggle_pause_def demo_gui_fields)
  have pre: "PauseResume \<noteq> Reset \<and> (\<forall>f. PauseResume \<noteq> LoadRom f)" by simp
  note frame = host_commands_frame [of PauseResume demo_core demo_gui]
  from frame pre have a: "chip8 (invoke demo_core PauseResume demo_gui) = chip8 demo_gui"
    by blast
  from frame have b: "memory (chip8 (invoke demo_core Reset demo_gui)) = memory (chip8 demo_gui)"
    by blast
  have c: "chip8 (demo_start\<lparr>screen := screen demo_gui, window := window demo_gui,
       chip8 := demo_loaded\<lparr>draw_flag := False\<rparr>\<rparr>) = (chip8 demo_start)\<lparr>draw_flag := False\<rparr>"
    by (simp add: demo_start_fields)
  from pre p a b u c show ?thesis by (intro conjI) blast+
qed

text \<open>
  Claim C8 as stated, that only a load writes registers, program counter and timers,
  fails for the Reset button: on the running demo it takes the program counter from 0x204
  to 0x200, V0 from 5 to 0 and the delay timer from 5 to 0.
\<close>

theorem reset_writes_registers_counterexample:
  "emulation_loop demo_core ([] # []) (load_rom demo_core ''demo.ch8'' (EmulatorGUI demo_core)) =
     (Continue, demo_gui) \<and>
   rom_loaded demo_gui \<and>
   pc (chip8 demo_gui) = 0x204 \<and> pc (chip8 (invoke demo_core Reset demo_gui)) = 0x200 \<and>
   V (chip8 demo_gui) ! 0 = 5 \<and> V (chip8 (invoke demo_core Reset demo_gui)) ! 0 = 0 \<and>
   delay_timer (chip8 demo_gui) = 5 \<and> delay_timer (chip8 (invoke demo_core Reset demo_gui)) = 0"
proof -
  have "rom_loaded demo_gui \<and>
   pc (chip8 demo_gui) = 0x204 \<and> pc (chip8 (invoke demo_core Reset demo_gui)) = 0x200 \<and>
   V (chip8 demo_gui) ! 0 = 5 \<and> V (chip8 (invoke demo_core Reset demo_gui)) ! 0 = 0 \<and>
   delay_timer (chip8 demo_gui) = 5 \<and> delay_timer (chip8 (invoke demo_core Reset demo_gui)) = 0"
    by (simp add: reset_def demo_gui_fields demo_looping_fields)
  with demo_reached show ?thesis by blast
qed

text \<open>
  Claim C10. With a ROM loaded, Reset sets the stack to empty, the 16 registers, I and both
  timers to 0, PC to 0x200, the framebuffer to \<open>DISPLAY_WIDTH * DISPLAY_HEIGHT\<close> zeros and
  the draw flag, and leaves the memory as it is: the loaded program and the font stay.
\<close>

theorem reset_restores_all_but_memory:
  assumes "rom_loaded g"
  shows "stack (chip8 (reset g)) = [] \<and> V (chip8 (reset g)) = replicate 16 0 \<and>
         I (chip8 (reset g)) = 0 \<and> pc (chip8 (reset g)) = 0x200 \<and>
         delay_timer (chip8 (reset g)) = 0 \<and> sound_timer (chip8 (reset g)) = 0 \<and>
         display (chip8 (reset g)) =
           replicate (DISPLAY_WIDTH (chip8 g) * DISPLAY_HEIGHT (chip8 g)) 0 \<and>
         draw_flag (chip8 (reset g)) \<and>
         memory (chip8 (reset g)) = memory (chip8 g)"
  using assms by (simp add: reset_def)

theorem reset_restores_all_but_memory_witness:
  "rom_loaded demo_gui \<and> pc (chip8 demo_gui) = 0x204 \<and> delay_timer (chip8 demo_gui) = 5 \<and>
   pc (chip8 (reset demo_gui)) = 0x200 \<and> delay_timer (chip8 (reset demo_gui)) = 0 \<and>
   display (chip8 (reset demo_gui)) = replicate 2048 0 \<and>
   memory (chip8 (reset demo_gui)) ! 0x200 = 0x60 \<and> memory (chip8 (reset demo_gui)) ! 0x204 = 0x12"
proof -
  have l: "rom_loaded demo_gui" by (simp add: demo_gui_fields)
  have "DISPLAY_WIDTH (chip8 demo_gui) * DISPLAY_HEIGHT (chip8 demo_gui) = 2048"
    by (simp add: demo_gui_fields demo_looping_def demo_loaded_def Chip8_new_def)
  moreover have "memory (chip8 demo_gui) ! 0x200 = 0x60" "memory (chip8 demo_gui) ! 0x204 = 0x12"
    using demo_mem by (simp_all add: demo_gui_fields demo_looping_fields)
  ultimately show ?thesis
    using l reset_restores_all_but_memory [OF l]
    by (simp add: demo_gui_fields demo_looping_fields)
qed

end
